theory Spec2Isabelle
  imports Main "HOL-Library.AList"
begin

section \<open>JavaScript values\<close>

text \<open>
  The services exchange plain JavaScript data. A string is the list of the bytes of its
  UTF-8 text. A number is kept by its exact decimal value: \<open>Number m e\<close> stands for
  \<open>m * 10 ^ e\<close>; rounding to binary64, the non-finite numbers and the negative zero are
  outside the model. A \<open>Date\<close> is its time value, the milliseconds since the epoch.
\<close>

datatype number = Number int int

datatype jsval =
    JUndefined
  | JNull
  | JBool bool
  | JNum number
  | JStr string
  | JDate int
  | JArr "jsval list"
  | JObj "(string \<times> jsval) list"

datatype js_error = SyntaxError | TypeError

subsection \<open>Number to string\<close>

definition digit_char :: "int \<Rightarrow> char" where
  "digit_char d = char_of (48 + d)"

text \<open>The decimal digits of a number that is not negative, most significant first.\<close>

function digits :: "int \<Rightarrow> string" where
  "digits n = (if n < 10 then [digit_char n] else digits (n div 10) @ [digit_char (n mod 10)])"
  by pat_completeness auto
termination
  by (relation "measure nat") auto

declare digits.simps [simp del]

text \<open>The shortest digit string of a non-zero value: trailing zeros move into the exponent.\<close>

function strip_zeros :: "int \<Rightarrow> int \<Rightarrow> int \<times> int" where
  "strip_zeros s e =
     (if 0 < s \<and> s mod 10 = 0 then strip_zeros (s div 10) (e + 1) else (s, e))"
  by pat_completeness auto
termination
  by (relation "measure (\<lambda>(s, e). nat s)") auto

declare strip_zeros.simps [simp del]

text \<open>
  \<open>Number::toString\<close> of ECMAScript, radix 10: with \<open>k\<close> digits \<open>ds\<close> and the decimal point
  after digit \<open>n\<close>, the four layouts are digits and zeros, digits around a point, a leading
  \<open>0.\<close>, and the exponent form.
\<close>

definition Number_toString :: "number \<Rightarrow> string" where
  "Number_toString x =
     (case x of Number m e \<Rightarrow>
        if m = 0 then ''0''
        else
          (let (s, e') = strip_zeros \<bar>m\<bar> e;
               ds = digits s;
               k = int (length ds);
               n = e' + k;
               ex = (if n - 1 < 0 then ''-'' else ''+'') @ digits \<bar>n - 1\<bar>;
               body =
                 (if k \<le> n \<and> n \<le> 21 then ds @ replicate (nat (n - k)) (CHR ''0'')
                  else if 0 < n \<and> n \<le> 21 then take (nat n) ds @ ''.'' @ drop (nat n) ds
                  else if - 6 < n \<and> n \<le> 0 then ''0.'' @ replicate (nat (- n)) (CHR ''0'') @ ds
                  else if k = 1 then ds @ ''e'' @ ex
                  else take 1 ds @ ''.'' @ drop 1 ds @ ''e'' @ ex)
           in (if m < 0 then ''-'' else []) @ body))"

subsection \<open>Date to ISO-8601 string\<close>

definition pad :: "nat \<Rightarrow> int \<Rightarrow> string" where
  "pad w n = replicate (w - length (digits n)) (CHR ''0'') @ digits n"

text \<open>
  The civil date of a day number (days since 1970-01-01) in the proleptic Gregorian
  calendar, by eras of 400 years that start on the first of March.
\<close>

definition civil_from_days :: "int \<Rightarrow> int \<times> int \<times> int" where
  "civil_from_days z0 =
     (let z = z0 + 719468;
          era = z div 146097;
          doe = z - era * 146097;
          yoe = (doe - doe div 1460 + doe div 36524 - doe div 146096) div 365;
          doy = doe - (365 * yoe + yoe div 4 - yoe div 100);
          mp = (5 * doy + 2) div 153;
          d = doy - (153 * mp + 2) div 5 + 1;
          m = (if mp < 10 then mp + 3 else mp - 9);
          y = yoe + era * 400 + (if m \<le> 2 then 1 else 0)
      in (y, m, d))"

text \<open>
  \<open>Date.prototype.toISOString\<close>: \<open>YYYY-MM-DDTHH:mm:ss.sssZ\<close> in UTC, the year with a sign and
  six digits outside 0..9999. (A time value is in range for every date the clock gives.)
\<close>

definition toISOString :: "int \<Rightarrow> string" where
  "toISOString t =
     (let (y, m, d) = civil_from_days (t div 86400000);
          ms = t mod 86400000;
          year = (if 0 \<le> y \<and> y \<le> 9999 then pad 4 y
                  else (if y < 0 then ''-'' else ''+'') @ pad 6 \<bar>y\<bar>)
      in year @ ''-'' @ pad 2 m @ ''-'' @ pad 2 d @ ''T''
           @ pad 2 (ms div 3600000) @ '':'' @ pad 2 (ms div 60000 mod 60) @ '':''
           @ pad 2 (ms div 1000 mod 60) @ ''.'' @ pad 3 (ms mod 1000) @ ''Z'')"

subsection \<open>JSON.stringify\<close>

definition hex_char :: "int \<Rightarrow> char" where
  "hex_char d = (if d < 10 then char_of (48 + d) else char_of (87 + d))"

text \<open>
  \<open>QuoteJSONString\<close>, character by character: the quote and the backslash are escaped, the
  control characters have their short escapes or \<open>\u00xx\<close>, every other byte stands for
  itself.
\<close>

definition escape_char :: "char \<Rightarrow> string" where
  "escape_char c =
     (let n = (of_char c :: int) in
      if c = CHR 0x22 then [CHR 0x5C, CHR 0x22]
      else if c = CHR 0x5C then [CHR 0x5C, CHR 0x5C]
      else if n = 8 then [CHR 0x5C, CHR ''b'']
      else if n = 12 then [CHR 0x5C, CHR ''f'']
      else if n = 10 then [CHR 0x5C, CHR ''n'']
      else if n = 13 then [CHR 0x5C, CHR ''r'']
      else if n = 9 then [CHR 0x5C, CHR ''t'']
      else if n < 32 then [CHR 0x5C, CHR ''u'', CHR ''0'', CHR ''0'', hex_char (n div 16), hex_char (n mod 16)]
      else [c])"

definition quote :: "string \<Rightarrow> string" where
  "quote s = [CHR 0x22] @ concat (map escape_char s) @ [CHR 0x22]"

fun join :: "string \<Rightarrow> string list \<Rightarrow> string" where
  "join sep [] = []"
| "join sep [x] = x"
| "join sep (x # y # ys) = x @ sep @ join sep (y # ys)"

text \<open>
  \<open>SerializeJSONProperty\<close> with the current indentation \<open>ind\<close> and the \<open>gap\<close> of one
  level (empty for the compact form). \<open>None\<close> is the result \<open>undefined\<close>: such a property of
  an object is left out, such an element of an array is written \<open>null\<close>. A date is written
  through its \<open>toJSON\<close>, the ISO string.
\<close>

fun ser :: "string \<Rightarrow> string \<Rightarrow> jsval \<Rightarrow> string option"
  and ser_elements :: "string \<Rightarrow> string \<Rightarrow> jsval list \<Rightarrow> string list"
  and ser_members :: "string \<Rightarrow> string \<Rightarrow> (string \<times> jsval) list \<Rightarrow> string list"
where
  "ser gap ind JUndefined = None"
| "ser gap ind JNull = Some ''null''"
| "ser gap ind (JBool b) = Some (if b then ''true'' else ''false'')"
| "ser gap ind (JNum x) = Some (Number_toString x)"
| "ser gap ind (JStr s) = Some (quote s)"
| "ser gap ind (JDate t) = Some (quote (toISOString t))"
| "ser gap ind (JArr xs) =
     Some (let parts = ser_elements gap (ind @ gap) xs in
           if parts = [] then ''[]''
           else if gap = [] then ''['' @ join '','' parts @ '']''
           else ''['' @ [CHR 0x0A] @ ind @ gap @ join ('','' @ [CHR 0x0A] @ ind @ gap) parts
                  @ [CHR 0x0A] @ ind @ '']'')"
| "ser gap ind (JObj kvs) =
     Some (let parts = ser_members gap (ind @ gap) kvs in
           if parts = [] then ''{}''
           else if gap = [] then ''{'' @ join '','' parts @ ''}''
           else ''{'' @ [CHR 0x0A] @ ind @ gap @ join ('','' @ [CHR 0x0A] @ ind @ gap) parts
                  @ [CHR 0x0A] @ ind @ ''}'')"
| "ser_elements gap ind [] = []"
| "ser_elements gap ind (x # xs) =
     (case ser gap ind x of None \<Rightarrow> ''null'' | Some s \<Rightarrow> s) # ser_elements gap ind xs"
| "ser_members gap ind [] = []"
| "ser_members gap ind ((k, v) # kvs) =
     (case ser gap ind v of
        None \<Rightarrow> ser_members gap ind kvs
      | Some s \<Rightarrow> (quote k @ '':'' @ (if gap = [] then [] else '' '') @ s) # ser_members gap ind kvs)"

text \<open>\<open>JSON.stringify(v)\<close> and \<open>JSON.stringify(v, null, 2)\<close>.\<close>

definition JSON_stringify :: "jsval \<Rightarrow> string option" where
  "JSON_stringify v = ser [] [] v"

definition JSON_stringify2 :: "jsval \<Rightarrow> string option" where
  "JSON_stringify2 v = ser ''  '' [] v"

subsection \<open>JSON.parse\<close>

text \<open>
  The JSON grammar of ECMA-404, read from the left: a parser takes the longest value at
  the head of the text and returns it with the rest of the text; \<open>None\<close> is the
  \<open>SyntaxError\<close>. Numbers keep their exact decimal value. An escape \<open>\uXXXX\<close> above the
  ASCII range is stored as the bytes of its UTF-8 form, two escapes that form a surrogate
  pair as the four bytes of their code point, a lone surrogate as three bytes.
\<close>

definition is_ws :: "char \<Rightarrow> bool" where
  "is_ws c \<longleftrightarrow> c = CHR 0x20 \<or> c = CHR 0x09 \<or> c = CHR 0x0A \<or> c = CHR 0x0D"

definition skip_ws :: "string \<Rightarrow> string" where
  "skip_ws s = dropWhile is_ws s"

definition is_digit :: "char \<Rightarrow> bool" where
  "is_digit c \<longleftrightarrow> 48 \<le> (of_char c :: int) \<and> (of_char c :: int) \<le> 57"

definition digits_val :: "string \<Rightarrow> int" where
  "digits_val ds = foldl (\<lambda>a c. 10 * a + (of_char c - 48)) 0 ds"

text \<open>The number \<open>\<plusminus> m * 10 ^ e\<close> in its one representation: no trailing zero in the digits, zero as \<open>Number 0 0\<close>.\<close>

definition make_number :: "bool \<Rightarrow> int \<Rightarrow> int \<Rightarrow> number" where
  "make_number neg m e =
     (if m = 0 then Number 0 0
      else (let (s, e') = strip_zeros m e in Number (if neg then - s else s) e'))"

definition normal :: "number \<Rightarrow> number" where
  "normal x = (case x of Number m e \<Rightarrow> make_number (m < 0) \<bar>m\<bar> e)"

definition parse_frac :: "string \<Rightarrow> (string \<times> string) option" where
  "parse_frac s =
     (case s of
        [] \<Rightarrow> Some ([], s)
      | c # cs \<Rightarrow>
          if c = CHR ''.'' then
            (let fd = takeWhile is_digit cs
             in if fd = [] then None else Some (fd, dropWhile is_digit cs))
          else Some ([], s))"

definition parse_exp :: "string \<Rightarrow> (int \<times> string) option" where
  "parse_exp s =
     (case s of
        [] \<Rightarrow> Some (0, s)
      | c # cs \<Rightarrow>
          if c = CHR ''e'' \<or> c = CHR ''E'' then
            (let (neg, cs') =
                   (case cs of
                      [] \<Rightarrow> (False, cs)
                    | d # ds \<Rightarrow> if d = CHR ''-'' then (True, ds)
                                else if d = CHR ''+'' then (False, ds) else (False, cs));
                 ed = takeWhile is_digit cs'
             in if ed = [] then None
                else Some (if neg then - digits_val ed else digits_val ed, dropWhile is_digit cs'))
          else Some (0, s))"

definition parse_number :: "string \<Rightarrow> (number \<times> string) option" where
  "parse_number s =
     (let (neg, s1) = (case s of [] \<Rightarrow> (False, s)
                       | c # cs \<Rightarrow> if c = CHR ''-'' then (True, cs) else (False, s));
          ip = takeWhile is_digit s1
      in case ip of
           [] \<Rightarrow> None
         | d # ds \<Rightarrow>
             if d = CHR ''0'' \<and> ds \<noteq> [] then None
             else
               (case parse_frac (dropWhile is_digit s1) of
                  None \<Rightarrow> None
                | Some (fd, s3) \<Rightarrow>
                    (case parse_exp s3 of
                       None \<Rightarrow> None
                     | Some (ex, s4) \<Rightarrow>
                         Some (make_number neg (digits_val (ip @ fd)) (ex - int (length fd)), s4))))"

definition hex_val :: "char \<Rightarrow> int option" where
  "hex_val c =
     (let n = (of_char c :: int) in
      if 48 \<le> n \<and> n \<le> 57 then Some (n - 48)
      else if 97 \<le> n \<and> n \<le> 102 then Some (n - 87)
      else if 65 \<le> n \<and> n \<le> 70 then Some (n - 55)
      else None)"

definition hex4 :: "string \<Rightarrow> int option" where
  "hex4 s =
     (case s of
        a # b # c # d # r \<Rightarrow>
          (case (hex_val a, hex_val b, hex_val c, hex_val d) of
             (Some x, Some y, Some z, Some u) \<Rightarrow> Some (((x * 16 + y) * 16 + z) * 16 + u)
           | _ \<Rightarrow> None)
      | _ \<Rightarrow> None)"

definition utf8 :: "int \<Rightarrow> string" where
  "utf8 cp =
     (if cp < 0x80 then [char_of cp]
      else if cp < 0x800 then [char_of (0xC0 + cp div 64), char_of (0x80 + cp mod 64)]
      else if cp < 0x10000 then
        [char_of (0xE0 + cp div 4096), char_of (0x80 + cp div 64 mod 64), char_of (0x80 + cp mod 64)]
      else
        [char_of (0xF0 + cp div 262144), char_of (0x80 + cp div 4096 mod 64),
         char_of (0x80 + cp div 64 mod 64), char_of (0x80 + cp mod 64)])"

definition unescape :: "char \<Rightarrow> char option" where
  "unescape e =
     (if e = CHR 0x22 then Some (CHR 0x22)
      else if e = CHR 0x5C then Some (CHR 0x5C)
      else if e = CHR ''/'' then Some (CHR ''/'')
      else if e = CHR ''b'' then Some (CHR 0x08)
      else if e = CHR ''f'' then Some (CHR 0x0C)
      else if e = CHR ''n'' then Some (CHR 0x0A)
      else if e = CHR ''r'' then Some (CHR 0x0D)
      else if e = CHR ''t'' then Some (CHR 0x09)
      else None)"

text \<open>The low half of a surrogate pair that follows a high half \<open>hi\<close>, if there is one.\<close>

definition low_surrogate :: "int \<Rightarrow> string \<Rightarrow> int option" where
  "low_surrogate hi s =
     (if 0xD800 \<le> hi \<and> hi \<le> 0xDBFF then
        (case s of
           b # u # r \<Rightarrow>
             if b = CHR 0x5C \<and> u = CHR ''u'' then
               (case hex4 r of
                  None \<Rightarrow> None
                | Some lo \<Rightarrow> if 0xDC00 \<le> lo \<and> lo \<le> 0xDFFF then Some lo else None)
             else None
         | _ \<Rightarrow> None)
      else None)"

definition prepend :: "string \<Rightarrow> (string \<times> string) option \<Rightarrow> (string \<times> string) option" where
  "prepend xs r = (case r of None \<Rightarrow> None | Some (s, rest) \<Rightarrow> Some (xs @ s, rest))"

text \<open>The characters of a string after its opening quote, up to the closing quote.\<close>

fun parse_chars :: "string \<Rightarrow> (string \<times> string) option" where
  "parse_chars [] = None"
| "parse_chars (c # cs) =
     (if c = CHR 0x22 then Some ([], cs)
      else if c = CHR 0x5C then
        (case cs of
           [] \<Rightarrow> None
         | e # cs' \<Rightarrow>
             if e = CHR ''u'' then
               (case hex4 cs' of
                  None \<Rightarrow> None
                | Some cu \<Rightarrow>
                    (case low_surrogate cu (drop 4 cs') of
                       Some lo \<Rightarrow>
                         prepend (utf8 (0x10000 + (cu - 0xD800) * 1024 + (lo - 0xDC00)))
                           (parse_chars (drop 10 cs'))
                     | None \<Rightarrow> prepend (utf8 cu) (parse_chars (drop 4 cs'))))
             else
               (case unescape e of
                  None \<Rightarrow> None
                | Some ch \<Rightarrow> prepend [ch] (parse_chars cs')))
      else if (of_char c :: int) < 32 then None
      else prepend [c] (parse_chars cs))"

text \<open>
  A property that is given twice keeps its first place and takes its last value, as
  \<open>CreateDataProperty\<close> on an existing key does. (That integer-like keys are listed first
  is not modelled; reading a property does not depend on it.)
\<close>

definition properties :: "(string \<times> jsval) list \<Rightarrow> (string \<times> jsval) list" where
  "properties kvs = fold (\<lambda>(k, v) acc. AList.update k v acc) kvs []"

text \<open>
  A value; the elements of an array after its bracket; the members of an object after
  its brace. Each call that follows another inside one array or object is made on a
  shorter text, which the tests on the lengths make explicit; no test ever fails
  (\<open>parse_elements_unguarded\<close> and \<open>parse_members_unguarded\<close> below).
\<close>

function parse_value :: "string \<Rightarrow> (jsval \<times> string) option"
  and parse_elements :: "string \<Rightarrow> (jsval list \<times> string) option"
  and parse_members :: "string \<Rightarrow> ((string \<times> jsval) list \<times> string) option"
where
  "parse_value s =
     (case skip_ws s of
        [] \<Rightarrow> None
      | c # cs \<Rightarrow>
          if c = CHR ''{'' then
            (case skip_ws cs of
               [] \<Rightarrow> None
             | d # r \<Rightarrow>
                 if d = CHR ''}'' then Some (JObj [], r)
                 else (case parse_members cs of
                         None \<Rightarrow> None
                       | Some (kvs, r') \<Rightarrow> Some (JObj (properties kvs), r')))
          else if c = CHR ''['' then
            (case skip_ws cs of
               [] \<Rightarrow> None
             | d # r \<Rightarrow>
                 if d = CHR '']'' then Some (JArr [], r)
                 else (case parse_elements cs of
                         None \<Rightarrow> None
                       | Some (vs, r') \<Rightarrow> Some (JArr vs, r')))
          else if c = CHR 0x22 then
            (case parse_chars cs of None \<Rightarrow> None | Some (str, r) \<Rightarrow> Some (JStr str, r))
          else if take 4 (c # cs) = ''true'' then Some (JBool True, drop 4 (c # cs))
          else if take 5 (c # cs) = ''false'' then Some (JBool False, drop 5 (c # cs))
          else if take 4 (c # cs) = ''null'' then Some (JNull, drop 4 (c # cs))
          else if c = CHR ''-'' \<or> is_digit c then
            (case parse_number (c # cs) of None \<Rightarrow> None | Some (x, r) \<Rightarrow> Some (JNum x, r))
          else None)"
| "parse_elements s =
     (case parse_value s of
        None \<Rightarrow> None
      | Some (v, r) \<Rightarrow>
          (case skip_ws r of
             [] \<Rightarrow> None
           | c # r' \<Rightarrow>
               if c = CHR '','' then
                 (if length r' < length s then
                    (case parse_elements r' of
                       None \<Rightarrow> None
                     | Some (vs, r'') \<Rightarrow> Some (v # vs, r''))
                  else None)
               else if c = CHR '']'' then Some ([v], r')
               else None))"
| "parse_members s =
     (case skip_ws s of
        [] \<Rightarrow> None
      | q # cs \<Rightarrow>
          if q = CHR 0x22 then
            (case parse_chars cs of
               None \<Rightarrow> None
             | Some (k, r) \<Rightarrow>
                 (case skip_ws r of
                    [] \<Rightarrow> None
                  | col # r1 \<Rightarrow>
                      if col = CHR '':'' \<and> length r1 < length s then
                        (case parse_value r1 of
                           None \<Rightarrow> None
                         | Some (v, r2) \<Rightarrow>
                             (case skip_ws r2 of
                                [] \<Rightarrow> None
                              | c # r3 \<Rightarrow>
                                  if c = CHR '','' then
                                    (if length r3 < length s then
                                       (case parse_members r3 of
                                          None \<Rightarrow> None
                                        | Some (kvs, r4) \<Rightarrow> Some ((k, v) # kvs, r4))
                                     else None)
                                  else if c = CHR ''}'' then Some ([(k, v)], r3)
                                  else None))
                      else None))
          else None)"
  by pat_completeness auto
termination
proof (relation "measure (\<lambda>x. case x of Inl s \<Rightarrow> 2 * length s
                                      | Inr (Inl s) \<Rightarrow> 2 * length s + 1
                                      | Inr (Inr s) \<Rightarrow> 2 * length s + 1)", goal_cases)
  case 1
  show ?case by simp
next
  case (2 s c cs d r)
  from \<open>skip_ws s = c # cs\<close> have "length (c # cs) \<le> length s"
    unfolding skip_ws_def by (metis length_dropWhile_le)
  then show ?case by simp
next
  case (3 s c cs d r)
  from \<open>skip_ws s = c # cs\<close> have "length (c # cs) \<le> length s"
    unfolding skip_ws_def by (metis length_dropWhile_le)
  then show ?case by simp
qed simp_all

declare parse_value.simps [simp del] parse_elements.simps [simp del] parse_members.simps [simp del]

text \<open>\<open>JSON.parse(text)\<close>: one value, and nothing but white space after it.\<close>

definition JSON_parse :: "string \<Rightarrow> jsval option" where
  "JSON_parse s =
     (case parse_value s of
        None \<Rightarrow> None
      | Some (v, r) \<Rightarrow> if skip_ws r = [] then Some v else None)"

section \<open>The environment\<close>

text \<open>
  Everything a service reads from or writes to outside its own code is a field of the
  world: the in-memory \<open>Map\<close> of the products service (an association list in insertion
  order, as \<open>Map.prototype.values\<close> iterates it), the system clock (\<open>clock w n\<close> is the
  time value the \<open>n\<close>-th \<open>new Date()\<close> gives), the identifiers \<open>uuidv4()\<close> hands out, the
  environment variable \<open>KAFKA_TOPIC\<close>, the records handed to \<open>producer.send\<close> and the
  broker's answer to each of them. The \<open>journal\<close> lists, in the order in which they are
  made, the calls that write to the \<open>Map\<close> (\<open>set\<close>, \<open>delete\<close>) and the calls of
  \<open>producer.send\<close>.
\<close>

record product =
  id' :: string
  name :: string
  description :: string
  price :: number
  createdAt :: int
  updatedAt :: int

record CreateProductDto =
  c_name :: string
  c_description :: string
  c_price :: number

text \<open>An optional field of the update DTO is \<open>None\<close> when it is \<open>undefined\<close>.\<close>

record UpdateProductDto =
  u_name :: "string option"
  u_description :: "string option"
  u_price :: "number option"

record kafka_message =
  msg_key :: string
  msg_value :: "string option"

record producer_record =
  topic :: string
  messages :: "kafka_message list"

datatype error = NotFoundException string | DeliveryFailed

datatype call = SetCall string product | DeleteCall string | SendCall producer_record

record world =
  products :: "(string \<times> product) list"
  clock :: "nat \<Rightarrow> int"
  ticks :: nat
  uuids :: "nat \<Rightarrow> string"
  uuid_calls :: nat
  KAFKA_TOPIC :: "string option"
  sent :: "producer_record list"
  broker :: "nat \<Rightarrow> bool"
  journal :: "call list"

text \<open>\<open>new Date()\<close> reads the clock; \<open>uuidv4()\<close> takes the next identifier.\<close>

definition new_Date :: "world \<Rightarrow> int \<times> world" where
  "new_Date w = (clock w (ticks w), w\<lparr>ticks := Suc (ticks w)\<rparr>)"

definition uuidv4 :: "world \<Rightarrow> string \<times> world" where
  "uuidv4 w = (uuids w (uuid_calls w), w\<lparr>uuid_calls := Suc (uuid_calls w)\<rparr>)"

text \<open>The \<open>Map\<close> methods the service calls.\<close>

definition Map_set :: "string \<Rightarrow> product \<Rightarrow> (string \<times> product) list \<Rightarrow> (string \<times> product) list" where
  "Map_set k v m = AList.update k v m"

definition Map_get :: "(string \<times> product) list \<Rightarrow> string \<Rightarrow> product option" where
  "Map_get m k = map_of m k"

definition Map_delete :: "string \<Rightarrow> (string \<times> product) list \<Rightarrow> (string \<times> product) list" where
  "Map_delete k m = AList.delete k m"

definition Map_values :: "(string \<times> product) list \<Rightarrow> product list" where
  "Map_values m = map snd m"

section \<open>KafkaProducerService\<close>

text \<open>\<open>const TOPIC = process.env.KAFKA_TOPIC || 'product-events'\<close>: unset and empty are falsy.\<close>

definition TOPIC :: "world \<Rightarrow> string" where
  "TOPIC w = (case KAFKA_TOPIC w of None \<Rightarrow> ''product-events''
              | Some t \<Rightarrow> if t = [] then ''product-events'' else t)"

text \<open>
  \<open>producer.send\<close> hands one record to the broker. The record is remembered as an
  attempt; the promise resolves when the broker accepts it and rejects otherwise.
\<close>

definition producer_send :: "producer_record \<Rightarrow> world \<Rightarrow> (error + unit) \<times> world" where
  "producer_send r w =
     (if broker w (length (sent w)) then Inr () else Inl DeliveryFailed,
      w\<lparr>sent := sent w @ [r], journal := journal w @ [SendCall r]\<rparr>)"

definition envelope :: "string \<Rightarrow> jsval \<Rightarrow> int \<Rightarrow> jsval" where
  "envelope eventType payload now =
     JObj [(''type'', JStr eventType), (''payload'', payload),
           (''timestamp'', JStr (toISOString now))]"

definition emit :: "string \<Rightarrow> jsval \<Rightarrow> world \<Rightarrow> (error + unit) \<times> world" where
  "emit eventType payload w =
     (let (now, w1) = new_Date w
      in producer_send
           \<lparr>topic = TOPIC w1,
            messages = [\<lparr>msg_key = eventType,
                         msg_value = JSON_stringify (envelope eventType payload now)\<rparr>]\<rparr>
           w1)"

section \<open>ProductsService\<close>

definition PRODUCT_CREATED :: string where "PRODUCT_CREATED = ''product.created''"
definition PRODUCT_UPDATED :: string where "PRODUCT_UPDATED = ''product.updated''"
definition PRODUCT_DELETED :: string where "PRODUCT_DELETED = ''product.deleted''"

text \<open>A product as the JavaScript object the service builds, its dates \<open>Date\<close> objects.\<close>

definition product_val :: "product \<Rightarrow> jsval" where
  "product_val p =
     JObj [(''id'', JStr (id' p)), (''name'', JStr (name p)),
           (''description'', JStr (description p)), (''price'', JNum (price p)),
           (''createdAt'', JDate (createdAt p)), (''updatedAt'', JDate (updatedAt p))]"

text \<open>
  Each method returns what its promise settles with (\<open>Inl\<close> a rejection) and the world
  it leaves. An \<open>await\<close> of a rejected promise rejects the method at that point; what was
  written before stays written.
\<close>

definition create :: "CreateProductDto \<Rightarrow> world \<Rightarrow> (error + product) \<times> world" where
  "create dto w =
     (let (now, w1) = new_Date w;
          (uid, w2) = uuidv4 w1;
          p = \<lparr>id' = uid, name = c_name dto, description = c_description dto,
               price = c_price dto, createdAt = now, updatedAt = now\<rparr>;
          w3 = w2\<lparr>products := Map_set (id' p) p (products w2),
                  journal := journal w2 @ [SetCall (id' p) p]\<rparr>;
          (r, w4) = emit PRODUCT_CREATED (product_val p) w3
      in (case r of Inl e \<Rightarrow> Inl e | Inr u \<Rightarrow> Inr p, w4))"

definition findAll :: "world \<Rightarrow> (error + product list) \<times> world" where
  "findAll w = (Inr (Map_values (products w)), w)"

definition findOne :: "string \<Rightarrow> world \<Rightarrow> (error + product) \<times> world" where
  "findOne i w =
     (case Map_get (products w) i of
        None \<Rightarrow> (Inl (NotFoundException (''Product '' @ i @ '' not found'')), w)
      | Some p \<Rightarrow> (Inr p, w))"

definition update :: "string \<Rightarrow> UpdateProductDto \<Rightarrow> world \<Rightarrow> (error + product) \<times> world" where
  "update i dto w =
     (case findOne i w of
        (Inl e, w0) \<Rightarrow> (Inl e, w0)
      | (Inr existing, w0) \<Rightarrow>
          (let (now, w1) = new_Date w0;
               updated = existing
                 \<lparr>name := (case u_name dto of None \<Rightarrow> name existing | Some n \<Rightarrow> n),
                  description := (case u_description dto of None \<Rightarrow> description existing | Some d \<Rightarrow> d),
                  price := (case u_price dto of None \<Rightarrow> price existing | Some x \<Rightarrow> x),
                  updatedAt := now\<rparr>;
               w2 = w1\<lparr>products := Map_set i updated (products w1),
                       journal := journal w1 @ [SetCall i updated]\<rparr>;
               (r, w3) = emit PRODUCT_UPDATED (product_val updated) w2
           in (case r of Inl e \<Rightarrow> Inl e | Inr u \<Rightarrow> Inr updated, w3)))"

definition remove :: "string \<Rightarrow> world \<Rightarrow> (error + unit) \<times> world" where
  "remove i w =
     (case findOne i w of
        (Inl e, w0) \<Rightarrow> (Inl e, w0)
      | (Inr p, w0) \<Rightarrow>
          (let w1 = w0\<lparr>products := Map_delete i (products w0),
                       journal := journal w0 @ [DeleteCall i]\<rparr>;
               (r, w2) = emit PRODUCT_DELETED (product_val p) w1
           in (r, w2)))"

section \<open>Sequences of requests\<close>

text \<open>
  A sequence of operations on the store: the methods are called one after another, each
  on the world the one before it left, whatever that one settled with.
\<close>

datatype request = Create CreateProductDto | Update string UpdateProductDto | Remove string

fun serve :: "request \<Rightarrow> world \<Rightarrow> world" where
  "serve (Create dto) w = snd (create dto w)"
| "serve (Update i dto) w = snd (update i dto w)"
| "serve (Remove i) w = snd (remove i w)"

definition run :: "request list \<Rightarrow> world \<Rightarrow> world" where
  "run rs w = fold serve rs w"

text \<open>The world when the process starts: nothing stored, nothing sent, no call made, no clock
  reading taken.\<close>

definition boot :: "(nat \<Rightarrow> int) \<Rightarrow> (nat \<Rightarrow> string) \<Rightarrow> string option \<Rightarrow> (nat \<Rightarrow> bool) \<Rightarrow> world" where
  "boot c u t b =
     \<lparr>products = [], clock = c, ticks = 0, uuids = u, uuid_calls = 0, KAFKA_TOPIC = t,
      sent = [], broker = b, journal = []\<rparr>"

section \<open>KafkaConsumerService\<close>

text \<open>
  What \<open>eachMessage\<close> is called with: the topic, the partition and the message, whose
  value is a buffer or \<open>null\<close>. The buffer's \<open>toString()\<close> is the text of its bytes (bytes
  that are not UTF-8, which it would replace, are outside the model).
\<close>

record EachMessagePayload =
  payload_topic :: string
  payload_partition :: int
  payload_message :: kafka_message

text \<open>
  The console after the handler ran, one entry per call: \<open>LogEvent\<close> is the \<open>console.log\<close>
  of the line built from topic, partition, \<open>event.type\<close> and \<open>event.timestamp\<close> (kept as
  the four values put into the template, not as the text made of them), \<open>LogPayload\<close>
  the \<open>console.log\<close> of \<open>JSON.stringify(event.payload, null, 2)\<close> (\<open>None\<close> when that is
  \<open>undefined\<close>), \<open>LogFailure\<close> the \<open>console.error\<close> of the \<open>catch\<close> block with the
  error it caught.
\<close>

datatype console_entry =
    LogEvent string int jsval jsval
  | LogPayload "string option"
  | LogFailure js_error

text \<open>
  Reading a property: of \<open>null\<close> and \<open>undefined\<close> a \<open>TypeError\<close>; of an object its value
  or \<open>undefined\<close>; of any other value \<open>undefined\<close> (the handler reads \<open>type\<close>, \<open>timestamp\<close>
  and \<open>payload\<close>, which no prototype defines).
\<close>

definition get_prop :: "jsval \<Rightarrow> string \<Rightarrow> js_error + jsval" where
  "get_prop v k =
     (case v of
        JUndefined \<Rightarrow> Inl TypeError
      | JNull \<Rightarrow> Inl TypeError
      | JObj kvs \<Rightarrow> Inr (case map_of kvs k of None \<Rightarrow> JUndefined | Some x \<Rightarrow> x)
      | _ \<Rightarrow> Inr JUndefined)"

text \<open>
  Whether putting a value into a template literal throws: the conversion to a string
  fails with a \<open>TypeError\<close> for an object that has a property \<open>toString\<close> of its own (no
  parsed value is a function, and \<open>valueOf\<close> then gives no primitive), and for an array
  with such an element, since \<open>join\<close> converts every element but \<open>null\<close> and \<open>undefined\<close>.
\<close>

fun to_string_throws :: "jsval \<Rightarrow> bool"
  and any_to_string_throws :: "jsval list \<Rightarrow> bool"
where
  "to_string_throws (JObj kvs) = (''toString'' \<in> fst ` set kvs)"
| "to_string_throws (JArr xs) = any_to_string_throws xs"
| "to_string_throws JUndefined = False"
| "to_string_throws JNull = False"
| "to_string_throws (JBool b) = False"
| "to_string_throws (JNum x) = False"
| "to_string_throws (JStr s) = False"
| "to_string_throws (JDate t) = False"
| "any_to_string_throws [] = False"
| "any_to_string_throws (x # xs) = (to_string_throws x \<or> any_to_string_throws xs)"

text \<open>The statements of the \<open>try\<close> block: \<open>Inl\<close> is the error thrown, at the console it left.\<close>

definition try_block ::
    "string \<Rightarrow> int \<Rightarrow> string \<Rightarrow> console_entry list \<Rightarrow> (js_error + unit) \<times> console_entry list" where
  "try_block tp part text con =
     (case JSON_parse text of
        None \<Rightarrow> (Inl SyntaxError, con)
      | Some event \<Rightarrow>
          (case get_prop event ''type'' of
             Inl e \<Rightarrow> (Inl e, con)
           | Inr ty \<Rightarrow>
               if to_string_throws ty then (Inl TypeError, con)
               else
                 (case get_prop event ''timestamp'' of
                    Inl e \<Rightarrow> (Inl e, con)
                  | Inr ts \<Rightarrow>
                      if to_string_throws ts then (Inl TypeError, con)
                      else
                        (let con1 = con @ [LogEvent tp part ty ts]
                         in case get_prop event ''payload'' of
                              Inl e \<Rightarrow> (Inl e, con1)
                            | Inr pl \<Rightarrow> (Inr (), con1 @ [LogPayload (JSON_stringify2 pl)])))))"

text \<open>
  \<open>handleMessage\<close>: nothing is done for a missing or empty value; an error thrown in the
  \<open>try\<close> block is caught and logged. \<open>Inl\<close> would be an error that leaves the method.
\<close>

definition handleMessage ::
    "EachMessagePayload \<Rightarrow> console_entry list \<Rightarrow> (js_error + unit) \<times> console_entry list" where
  "handleMessage p con =
     (case msg_value (payload_message p) of
        None \<Rightarrow> (Inr (), con)
      | Some text \<Rightarrow>
          if text = [] then (Inr (), con)
          else
            (case try_block (payload_topic p) (payload_partition p) text con of
               (Inr u, con') \<Rightarrow> (Inr (), con')
             | (Inl e, con') \<Rightarrow> (Inr (), con' @ [LogFailure e])))"

text \<open>
  The runner of the Kafka client calls \<open>eachMessage\<close>, which awaits \<open>handleMessage\<close>, for
  the messages of a partition one after another. It goes on to the next message when the
  call has resolved; a call that rejects makes the runner stop there (it retries from
  that message, so the messages after it are not delivered).
\<close>

fun consume ::
    "EachMessagePayload list \<Rightarrow> console_entry list \<Rightarrow> (js_error + unit) \<times> console_entry list" where
  "consume [] con = (Inr (), con)"
| "consume (p # ps) con =
     (case handleMessage p con of
        (Inl e, con') \<Rightarrow> (Inl e, con')
      | (Inr u, con') \<Rightarrow> consume ps con')"

section \<open>The event on the wire\<close>

text \<open>
  The text \<open>JSON.stringify\<close> gives for a product and for the envelope around it, and the
  value \<open>JSON.parse\<close> gives back for a product: its dates are the ISO strings, its price
  is the number in its one representation.
\<close>

definition product_json :: "product \<Rightarrow> jsval" where
  "product_json p =
     JObj [(''id'', JStr (id' p)), (''name'', JStr (name p)),
           (''description'', JStr (description p)), (''price'', JNum (normal (price p))),
           (''createdAt'', JStr (toISOString (createdAt p))),
           (''updatedAt'', JStr (toISOString (updatedAt p)))]"

definition product_text :: "product \<Rightarrow> string" where
  "product_text p =
     ''{'' @ quote ''id'' @ '':'' @ quote (id' p) @ '','' @
     quote ''name'' @ '':'' @ quote (name p) @ '','' @
     quote ''description'' @ '':'' @ quote (description p) @ '','' @
     quote ''price'' @ '':'' @ Number_toString (price p) @ '','' @
     quote ''createdAt'' @ '':'' @ quote (toISOString (createdAt p)) @ '','' @
     quote ''updatedAt'' @ '':'' @ quote (toISOString (updatedAt p)) @ ''}''"

definition envelope_text :: "string \<Rightarrow> string \<Rightarrow> int \<Rightarrow> string" where
  "envelope_text t payload now =
     ''{'' @ quote ''type'' @ '':'' @ quote t @ '','' @
     quote ''payload'' @ '':'' @ payload @ '','' @
     quote ''timestamp'' @ '':'' @ quote (toISOString now) @ ''}''"

section \<open>The store as the specification describes it\<close>

text \<open>
  The specification describes \<open>list()\<close> by the history of operations, not by a mapping: it
  returns the entities that were created and not subsequently removed, each with the field
  values of its most recent create or update. The definitions of this section follow
  those words; they read the history and never run the service.

  In the history each create carries the identifier it was given: the \<open>n\<close>-th create takes
  the \<open>n\<close>-th identifier of the generator.
\<close>

datatype event =
    Created string CreateProductDto
  | Updated string UpdateProductDto
  | Removed string

fun history :: "request list \<Rightarrow> (nat \<Rightarrow> string) \<Rightarrow> nat \<Rightarrow> event list" where
  "history [] u n = []"
| "history (Create dto # rs) u n = Created (u n) dto # history rs u (Suc n)"
| "history (Update i dto # rs) u n = Updated i dto # history rs u n"
| "history (Remove i # rs) u n = Removed i # history rs u n"

text \<open>Created and not subsequently removed: some event creates \<open>i\<close> and no later one removes it.\<close>

fun spec_alive :: "string \<Rightarrow> event list \<Rightarrow> bool" where
  "spec_alive i [] = False"
| "spec_alive i (e # es) =
     ((case e of Created j dto \<Rightarrow> j = i \<and> Removed i \<notin> set es | Updated j dto \<Rightarrow> False
       | Removed j \<Rightarrow> False)
      \<or> spec_alive i es)"

text \<open>
  The latest value of a field of \<open>i\<close>, looking back from the most recent event (the list is
  the history reversed): the first create of \<open>i\<close>, or update of \<open>i\<close> that gives the field,
  decides.
\<close>

fun latest_name :: "string \<Rightarrow> event list \<Rightarrow> string option" where
  "latest_name i [] = None"
| "latest_name i (Created j dto # es) = (if j = i then Some (c_name dto) else latest_name i es)"
| "latest_name i (Updated j dto # es) =
     (if j = i then (case u_name dto of Some n \<Rightarrow> Some n | None \<Rightarrow> latest_name i es)
      else latest_name i es)"
| "latest_name i (Removed j # es) = latest_name i es"

fun latest_description :: "string \<Rightarrow> event list \<Rightarrow> string option" where
  "latest_description i [] = None"
| "latest_description i (Created j dto # es) =
     (if j = i then Some (c_description dto) else latest_description i es)"
| "latest_description i (Updated j dto # es) =
     (if j = i then (case u_description dto of Some d \<Rightarrow> Some d | None \<Rightarrow> latest_description i es)
      else latest_description i es)"
| "latest_description i (Removed j # es) = latest_description i es"

fun latest_price :: "string \<Rightarrow> event list \<Rightarrow> number option" where
  "latest_price i [] = None"
| "latest_price i (Created j dto # es) = (if j = i then Some (c_price dto) else latest_price i es)"
| "latest_price i (Updated j dto # es) =
     (if j = i then (case u_price dto of Some x \<Rightarrow> Some x | None \<Rightarrow> latest_price i es)
      else latest_price i es)"
| "latest_price i (Removed j # es) = latest_price i es"

text \<open>The entity with id \<open>i\<close> and fields \<open>n\<close>, \<open>d\<close>, \<open>x\<close> is listed after the history \<open>es\<close>.\<close>

definition spec_listed :: "event list \<Rightarrow> string \<Rightarrow> string \<Rightarrow> string \<Rightarrow> number \<Rightarrow> bool" where
  "spec_listed es i n d x \<longleftrightarrow>
     spec_alive i es \<and> latest_name i (rev es) = Some n \<and>
     latest_description i (rev es) = Some d \<and> latest_price i (rev es) = Some x"

text \<open>The number of creates of a request list: as many identifiers were taken.\<close>

fun creates :: "request list \<Rightarrow> nat" where
  "creates [] = 0"
| "creates (Create dto # rs) = Suc (creates rs)"
| "creates (Update i dto # rs) = creates rs"
| "creates (Remove i # rs) = creates rs"

section \<open>An invariant of the store\<close>

text \<open>
  What every stored entry satisfies: it is stored under its own id, it was not updated
  before it was created, and it was not updated after the next clock reading.
\<close>

definition stamped :: "world \<Rightarrow> bool" where
  "stamped w \<longleftrightarrow>
     (\<forall>(k, p) \<in> set (products w).
        id' p = k \<and> createdAt p \<le> updatedAt p \<and> updatedAt p \<le> clock w (ticks w))"

section \<open>Example inputs\<close>

text \<open>
  The product of the scenario (price 999.99) and its update (price 899.99); a world whose
  clock advances by a second with each reading and whose generator gives \<open>id\<close>, \<open>id+\<close>,
  \<open>id++\<close>, with the broker's answers as a parameter; and that world after one create.
\<close>

definition laptop :: CreateProductDto where
  "laptop = \<lparr>c_name = ''Laptop'', c_description = ''Gaming laptop'', c_price = Number 99999 (- 2)\<rparr>"

definition cheaper :: UpdateProductDto where
  "cheaper = \<lparr>u_name = None, u_description = None, u_price = Some (Number 89999 (- 2))\<rparr>"

definition demo :: "(nat \<Rightarrow> bool) \<Rightarrow> world" where
  "demo b = boot (\<lambda>n. 1000 * int n) (\<lambda>n. ''id'' @ replicate n (CHR ''+'')) None b"

definition stocked :: "(nat \<Rightarrow> bool) \<Rightarrow> world" where
  "stocked b = snd (create laptop (demo b))"

text \<open>A message with a given value, as it arrives on partition 0 of the default topic.\<close>

definition incoming :: "string option \<Rightarrow> EachMessagePayload" where
  "incoming v =
     \<lparr>payload_topic = ''product-events'', payload_partition = 0,
      payload_message = \<lparr>msg_key = ''k'', msg_value = v\<rparr>\<rparr>"

section \<open>Basic facts about the methods\<close>

lemmas prims = new_Date_def uuidv4_def producer_send_def emit_def TOPIC_def

lemma emit_fst: "fst (emit t p w) = (if broker w (length (sent w)) then Inr () else Inl DeliveryFailed)"
  by (simp add: prims)

lemma emit_snd:
  "snd (emit t p w) =
     w\<lparr>ticks := Suc (ticks w),
       sent := sent w @ [\<lparr>topic = TOPIC w, messages = [\<lparr>msg_key = t,
                 msg_value = JSON_stringify (envelope t p (clock w (ticks w)))\<rparr>]\<rparr>],
       journal := journal w @ [SendCall \<lparr>topic = TOPIC w, messages = [\<lparr>msg_key = t,
                 msg_value = JSON_stringify (envelope t p (clock w (ticks w)))\<rparr>]\<rparr>]\<rparr>"
  by (simp add: prims)

lemma Map_get_set: "Map_get (Map_set k v m) k' = (if k' = k then Some v else Map_get m k')"
  by (simp add: Map_get_def Map_set_def update_conv')

lemma Map_get_delete: "Map_get (Map_delete k m) k' = (if k' = k then None else Map_get m k')"
  by (simp add: Map_get_def Map_delete_def delete_conv')

lemma create_eq:
  "create dto w =
     (let p = \<lparr>id' = uuids w (uuid_calls w), name = c_name dto, description = c_description dto,
               price = c_price dto, createdAt = clock w (ticks w), updatedAt = clock w (ticks w)\<rparr>;
          w3 = w\<lparr>ticks := Suc (ticks w), uuid_calls := Suc (uuid_calls w),
                 products := Map_set (id' p) p (products w),
                 journal := journal w @ [SetCall (id' p) p]\<rparr>
      in (if broker w (length (sent w)) then Inr p else Inl DeliveryFailed,
          snd (emit PRODUCT_CREATED (product_val p) w3)))"
  by (simp add: create_def new_Date_def uuidv4_def Let_def split_def emit_fst)

lemma update_eq:
  "Map_get (products w) i = Some existing \<Longrightarrow>
   update i dto w =
     (let updated = existing
            \<lparr>name := (case u_name dto of None \<Rightarrow> name existing | Some n \<Rightarrow> n),
             description := (case u_description dto of None \<Rightarrow> description existing | Some d \<Rightarrow> d),
             price := (case u_price dto of None \<Rightarrow> price existing | Some x \<Rightarrow> x),
             updatedAt := clock w (ticks w)\<rparr>;
          w2 = w\<lparr>ticks := Suc (ticks w), products := Map_set i updated (products w),
                 journal := journal w @ [SetCall i updated]\<rparr>
      in (if broker w (length (sent w)) then Inr updated else Inl DeliveryFailed,
          snd (emit PRODUCT_UPDATED (product_val updated) w2)))"
  by (simp add: update_def findOne_def new_Date_def Let_def split_def emit_fst)

lemma update_absent:
  "Map_get (products w) i = None \<Longrightarrow>
   update i dto w = (Inl (NotFoundException (''Product '' @ i @ '' not found'')), w)"
  by (simp add: update_def findOne_def)

lemma remove_eq:
  "Map_get (products w) i = Some p \<Longrightarrow>
   remove i w =
     (let w1 = w\<lparr>products := Map_delete i (products w),
                   journal := journal w @ [DeleteCall i]\<rparr>
      in (if broker w (length (sent w)) then Inr () else Inl DeliveryFailed,
          snd (emit PRODUCT_DELETED (product_val p) w1)))"
  by (simp add: remove_def findOne_def Let_def split_def emit_fst prod_eq_iff)

lemma remove_absent:
  "Map_get (products w) i = None \<Longrightarrow>
   remove i w = (Inl (NotFoundException (''Product '' @ i @ '' not found'')), w)"
  by (simp add: remove_def findOne_def)

lemma stocked_eq:
  "stocked b =
     \<lparr>products = [(''id'', \<lparr>id' = ''id'', name = ''Laptop'', description = ''Gaming laptop'',
                  price = Number 99999 (- 2), createdAt = 0, updatedAt = 0\<rparr>)],
      clock = (\<lambda>n. 1000 * int n), ticks = 2, uuids = (\<lambda>n. ''id'' @ replicate n (CHR ''+'')),
      uuid_calls = 1, KAFKA_TOPIC = None,
      sent = [\<lparr>topic = ''product-events'', messages = [\<lparr>msg_key = PRODUCT_CREATED,
         msg_value = JSON_stringify (envelope PRODUCT_CREATED (product_val \<lparr>id' = ''id'', name = ''Laptop'', description = ''Gaming laptop'',
                  price = Number 99999 (- 2), createdAt = 0, updatedAt = 0\<rparr>) 1000)\<rparr>]\<rparr>],
      broker = b,
      journal = [SetCall ''id'' \<lparr>id' = ''id'', name = ''Laptop'', description = ''Gaming laptop'',
                  price = Number 99999 (- 2), createdAt = 0, updatedAt = 0\<rparr>,
         SendCall \<lparr>topic = ''product-events'', messages = [\<lparr>msg_key = PRODUCT_CREATED,
         msg_value = JSON_stringify (envelope PRODUCT_CREATED (product_val \<lparr>id' = ''id'', name = ''Laptop'', description = ''Gaming laptop'',
                  price = Number 99999 (- 2), createdAt = 0, updatedAt = 0\<rparr>) 1000)\<rparr>]\<rparr>]\<rparr>"
  by (simp add: stocked_def create_eq emit_snd demo_def boot_def laptop_def Map_set_def TOPIC_def Let_def)

lemma keys_Map_set: "fst ` set (Map_set k v m) = insert k (fst ` set m)"
  by (simp add: Map_set_def dom_update)

lemma keys_Map_delete: "fst ` set (Map_delete k m) = fst ` set m - {k}"
proof -
  have "set (map fst (Map_delete k m)) = set (map fst m) - {k}"
    by (simp only: Map_delete_def delete_keys set_removeAll)
  then show ?thesis by simp
qed

lemma Map_get_None_iff: "Map_get m k = None \<longleftrightarrow> k \<notin> fst ` set m"
  by (simp add: Map_get_def map_of_eq_None_iff)

lemma products_create:
  "products (snd (create dto w)) =
     Map_set (uuids w (uuid_calls w))
       \<lparr>id' = uuids w (uuid_calls w), name = c_name dto, description = c_description dto,
        price = c_price dto, createdAt = clock w (ticks w), updatedAt = clock w (ticks w)\<rparr>
       (products w)"
  by (simp add: create_eq emit_snd Let_def)

lemma products_update:
  "products (snd (update i dto w)) =
     (case Map_get (products w) i of
        None \<Rightarrow> products w
      | Some existing \<Rightarrow>
          Map_set i
            (existing
             \<lparr>name := (case u_name dto of None \<Rightarrow> name existing | Some n \<Rightarrow> n),
              description := (case u_description dto of None \<Rightarrow> description existing | Some d \<Rightarrow> d),
              price := (case u_price dto of None \<Rightarrow> price existing | Some x \<Rightarrow> x),
              updatedAt := clock w (ticks w)\<rparr>)
            (products w))"
  by (cases "Map_get (products w) i") (simp_all add: update_eq update_absent emit_snd Let_def)

lemma products_remove:
  "products (snd (remove i w)) = Map_delete i (products w)"
proof (cases "Map_get (products w) i")
  case None
  then have "i \<notin> fst ` set (products w)" by (simp add: Map_get_None_iff)
  then have "Map_delete i (products w) = products w"
    by (simp add: Map_delete_def delete_id)
  with None show ?thesis by (simp add: remove_absent)
next
  case (Some p)
  then show ?thesis by (simp add: remove_eq emit_snd Let_def)
qed

lemma keys_serve:
  "fst ` set (products (serve r w)) =
     (case r of Create dto \<Rightarrow> insert (uuids w (uuid_calls w)) (fst ` set (products w))
      | Update i dto \<Rightarrow> fst ` set (products w)
      | Remove i \<Rightarrow> fst ` set (products w) - {i})"
proof (cases r)
  case (Create dto)
  then show ?thesis by (simp add: products_create keys_Map_set)
next
  case (Update i dto)
  show ?thesis
  proof (cases "Map_get (products w) i")
    case None
    with Update show ?thesis by (simp add: products_update)
  next
    case (Some existing)
    then have "i \<in> fst ` set (products w)"
      using Map_get_None_iff [of "products w" i] by simp
    with Update Some show ?thesis
      by (simp add: products_update keys_Map_set insert_absorb)
  qed
next
  case (Remove i)
  then show ?thesis by (simp add: products_remove keys_Map_delete)
qed

lemma present_run:
  "i \<in> fst ` set (products w) \<Longrightarrow> Remove i \<notin> set rs \<Longrightarrow> i \<in> fst ` set (products (run rs w))"
proof (induction rs arbitrary: w)
  case Nil
  then show ?case by (simp add: run_def)
next
  case (Cons r rs)
  from Cons.prems have "i \<in> fst ` set (products (serve r w))"
    unfolding keys_serve by (cases r) auto
  with Cons.IH [of "serve r w"] Cons.prems show ?case by (simp add: run_def)
qed

section \<open>Runs of requests\<close>

lemma run_snoc: "run (rs @ [r]) w = serve r (run rs w)"
  by (simp add: run_def)

lemma env_serve:
  "clock (serve r w) = clock w \<and> uuids (serve r w) = uuids w \<and> ticks w \<le> ticks (serve r w) \<and>
   uuid_calls (serve r w) = (case r of Create dto \<Rightarrow> Suc (uuid_calls w) | _ \<Rightarrow> uuid_calls w)"
proof (cases r)
  case (Create dto)
  then show ?thesis by (simp add: create_eq emit_snd Let_def)
next
  case (Update i dto)
  then show ?thesis
    by (cases "Map_get (products w) i") (simp_all add: update_eq update_absent emit_snd Let_def)
next
  case (Remove i)
  then show ?thesis
    by (cases "Map_get (products w) i") (simp_all add: remove_eq remove_absent emit_snd Let_def)
qed

lemma creates_snoc:
  "creates (rs @ [r]) = (case r of Create dto \<Rightarrow> Suc (creates rs) | _ \<Rightarrow> creates rs)"
  by (induction rs rule: creates.induct) (simp_all split: request.splits)

lemma env_run:
  "clock (run rs w) = clock w \<and> uuids (run rs w) = uuids w \<and>
   uuid_calls (run rs w) = uuid_calls w + creates rs"
proof (induction rs rule: rev_induct)
  case Nil
  then show ?case by (simp add: run_def)
next
  case (snoc r rs)
  then show ?case
    by (simp add: run_snoc env_serve creates_snoc split: request.splits)
qed

lemma history_snoc:
  "history (rs @ [r]) u n =
     history rs u n @
     [case r of Create dto \<Rightarrow> Created (u (n + creates rs)) dto
      | Update i dto \<Rightarrow> Updated i dto | Remove i \<Rightarrow> Removed i]"
  by (induction rs u n rule: history.induct) (simp_all split: request.splits)

lemma spec_alive_snoc:
  "spec_alive i (es @ [e]) =
     (case e of Created j dto \<Rightarrow> j = i \<or> spec_alive i es
      | Updated j dto \<Rightarrow> spec_alive i es
      | Removed j \<Rightarrow> j \<noteq> i \<and> spec_alive i es)"
  by (induction es) (auto split: event.splits)


lemma keys_distinct_serve:
  "distinct (map fst (products w)) \<Longrightarrow> distinct (map fst (products (serve r w)))"
proof (cases r)
  case (Create dto)
  assume "distinct (map fst (products w))"
  with Create show ?thesis by (simp add: products_create Map_set_def distinct_update)
next
  case (Update i dto)
  assume "distinct (map fst (products w))"
  with Update show ?thesis
    by (cases "Map_get (products w) i") (simp_all add: products_update Map_set_def distinct_update)
next
  case (Remove i)
  assume "distinct (map fst (products w))"
  with Remove show ?thesis by (simp add: products_remove Map_delete_def distinct_delete)
qed

lemma keys_distinct_run:
  "distinct (map fst (products w)) \<Longrightarrow> distinct (map fst (products (run rs w)))"
  by (induction rs rule: rev_induct) (simp_all add: run_def keys_distinct_serve)

text \<open>The mapping after a run, entry by entry, against the history.\<close>

lemma store_refines_history:
  assumes "products w = []"
  shows "(case Map_get (products (run rs w)) i of
           None \<Rightarrow> \<not> spec_alive i (history rs (uuids w) (uuid_calls w))
         | Some p \<Rightarrow>
             spec_alive i (history rs (uuids w) (uuid_calls w)) \<and> id' p = i \<and>
             latest_name i (rev (history rs (uuids w) (uuid_calls w))) = Some (name p) \<and>
             latest_description i (rev (history rs (uuids w) (uuid_calls w))) = Some (description p) \<and>
             latest_price i (rev (history rs (uuids w) (uuid_calls w))) = Some (price p))"
proof (induction rs arbitrary: i rule: rev_induct)
  case Nil
  from assms show ?case by (simp add: run_def Map_get_def)
next
  case (snoc r rs)
  let ?W = "run rs w"
  let ?es = "history rs (uuids w) (uuid_calls w)"
  note env = env_run [of rs w]
  show ?case
  proof (cases r)
    case (Create dto)
    have "uuids ?W (uuid_calls ?W) = uuids w (uuid_calls w + creates rs)"
      by (simp add: env)
    with Create snoc.IH [of i] show ?thesis
      by (simp add: run_snoc history_snoc spec_alive_snoc products_create Map_get_set
               split: option.splits)
  next
    case (Update j dto)
    show ?thesis
    proof (cases "Map_get (products ?W) j")
      case None
      with Update snoc.IH [of i] snoc.IH [of j] show ?thesis
        by (auto simp add: run_snoc history_snoc spec_alive_snoc products_update
                 split: option.splits)
    next
      case (Some existing)
      with Update snoc.IH [of i] snoc.IH [of j] show ?thesis
        by (auto simp add: run_snoc history_snoc spec_alive_snoc products_update Map_get_set
                 split: option.splits)
    qed
  next
    case (Remove j)
    with snoc.IH [of i] show ?thesis
      by (auto simp add: run_snoc history_snoc spec_alive_snoc products_remove Map_get_delete
               split: option.splits)
  qed
qed

lemma set_Map_set: "(k', p) \<in> set (Map_set k v m) \<Longrightarrow> (k', p) = (k, v) \<or> (k', p) \<in> set m"
  unfolding Map_set_def by (induction m) (auto split: if_splits)

lemma set_Map_delete: "(k', p) \<in> set (Map_delete k m) \<Longrightarrow> (k', p) \<in> set m"
  unfolding Map_delete_def by (induction m) (auto split: if_splits)

lemma stamped_serve:
  assumes clk: "mono (clock w)" and inv: "stamped w"
  shows "stamped (serve r w)"
proof -
  have later: "clock w (ticks w) \<le> clock w (ticks (serve r w))"
    using clk env_serve [of r w] by (simp add: mono_def)
  have old: "id' p = k \<and> createdAt p \<le> updatedAt p \<and> updatedAt p \<le> clock w (ticks (serve r w))"
    if "(k, p) \<in> set (products w)" for k p
    using that inv later by (fastforce simp add: stamped_def)
  have "id' p = k \<and> createdAt p \<le> updatedAt p \<and> updatedAt p \<le> clock w (ticks (serve r w))"
    if mem: "(k, p) \<in> set (products (serve r w))" for k p
  proof (cases r)
    case (Create dto)
    with mem later old [of k p] show ?thesis
      by (auto simp add: products_create dest!: set_Map_set)
  next
    case (Update i dto)
    show ?thesis
    proof (cases "Map_get (products w) i")
      case None
      with Update mem old [of k p] show ?thesis by (simp add: products_update)
    next
      case (Some existing)
      then have "(i, existing) \<in> set (products w)"
        by (auto simp add: Map_get_def dest: map_of_SomeD)
      from old [OF this] inv this have "id' existing = i" "createdAt existing \<le> clock w (ticks w)"
        by (auto simp add: stamped_def)
      with Update Some mem later old [of k p] show ?thesis
        by (auto simp add: products_update dest!: set_Map_set)
    qed
  next
    case (Remove i)
    with mem old [of k p] show ?thesis
      by (auto simp add: products_remove dest!: set_Map_delete)
  qed
  then show ?thesis using env_serve [of r w] by (auto simp add: stamped_def)
qed

lemma stamped_run: "mono (clock w) \<Longrightarrow> stamped w \<Longrightarrow> stamped (run rs w)"
proof (induction rs rule: rev_induct)
  case Nil
  then show ?case by (simp add: run_def)
next
  case (snoc r rs)
  then show ?case using stamped_serve [of "run rs w" r] env_run [of rs w]
    by (simp add: run_snoc)
qed

section \<open>Numbers: text and back\<close>

lemma of_char_digit_char: "0 \<le> d \<Longrightarrow> d < 10 \<Longrightarrow> (of_char (digit_char d) :: int) = 48 + d"
  by (simp add: digit_char_def)

lemma is_digit_digit_char: "0 \<le> d \<Longrightarrow> d < 10 \<Longrightarrow> is_digit (digit_char d)"
  by (simp add: is_digit_def of_char_digit_char)

lemma digit_char_0: "digit_char 0 = CHR ''0''"
  by code_simp

lemma digits_small: "n < 10 \<Longrightarrow> digits n = [digit_char n]"
  by (subst digits.simps) simp

lemma digits_large: "\<not> n < 10 \<Longrightarrow> digits n = digits (n div 10) @ [digit_char (n mod 10)]"
  by (subst digits.simps) simp

lemma digit_char_eq_0: "0 \<le> d \<Longrightarrow> d < 10 \<Longrightarrow> digit_char d = CHR ''0'' \<longleftrightarrow> d = 0"
proof
  assume "0 \<le> d" "d < 10" "digit_char d = CHR ''0''"
  then have "(of_char (digit_char d) :: int) = of_char (CHR ''0'')" by simp
  with \<open>0 \<le> d\<close> \<open>d < 10\<close> show "d = 0" by (simp add: of_char_digit_char)
qed (simp add: digit_char_0)


lemma digits_nonempty: "digits n \<noteq> []"
  by (cases "n < 10") (simp_all add: digits_small digits_large)

lemma digits_all_digit: "0 \<le> n \<Longrightarrow> c \<in> set (digits n) \<Longrightarrow> is_digit c"
proof (induction n arbitrary: c rule: digits.induct)
  case (1 n)
  show ?case
  proof (cases "n < 10")
    case True
    with "1.prems" show ?thesis
      by (simp add: digits_small is_digit_digit_char)
  next
    case False
    with "1.prems" have "c \<in> set (digits (n div 10)) \<or> c = digit_char (n mod 10)"
      by (auto simp add: digits_large)
    with False "1.IH" [of c] "1.prems" show ?thesis
      by (auto simp add: is_digit_digit_char)
  qed
qed

lemma digits_val_snoc: "digits_val (ds @ [c]) = 10 * digits_val ds + (of_char c - 48)"
  by (simp add: digits_val_def)

lemma digits_val_digits: "0 \<le> n \<Longrightarrow> digits_val (digits n) = n"
proof (induction n rule: digits.induct)
  case (1 n)
  show ?case
  proof (cases "n < 10")
    case True
    with "1.prems" show ?thesis
      by (simp add: digits_small digits_val_def of_char_digit_char)
  next
    case False
    with "1.IH" "1.prems" have "digits_val (digits (n div 10)) = n div 10" by simp
    with False "1.prems" show ?thesis
      by (simp add: digits_large digits_val_snoc of_char_digit_char)
  qed
qed

lemma hd_digits: "0 < n \<Longrightarrow> hd (digits n) \<noteq> CHR ''0''"
proof (induction n rule: digits.induct)
  case (1 n)
  show ?case
  proof (cases "n < 10")
    case True
    with "1.prems" show ?thesis
      by (simp add: digits_small digit_char_eq_0)
  next
    case False
    with "1.IH" "1.prems" have "hd (digits (n div 10)) \<noteq> CHR ''0''" by simp
    with False show ?thesis
      by (simp add: digits_large digits_nonempty)
  qed
qed

lemma digits_val_zeros: "digits_val (replicate j (CHR ''0'') @ ds) = digits_val ds"
proof (induction j)
  case 0
  show ?case by simp
next
  case (Suc j)
  have "digits_val (CHR ''0'' # xs) = digits_val xs" for xs
    by (simp add: digits_val_def)
  with Suc show ?case by simp
qed

lemma digits_val_append_zeros: "digits_val (ds @ replicate j (CHR ''0'')) = digits_val ds * 10 ^ j"
proof (induction j)
  case 0
  show ?case by simp
next
  case (Suc j)
  have "ds @ replicate (Suc j) (CHR ''0'') = (ds @ replicate j (CHR ''0'')) @ [CHR ''0'']"
    by (simp add: replicate_append_same)
  with Suc show ?case by (simp only: digits_val_snoc) simp
qed

lemma strip_zeros_fix: "s mod 10 \<noteq> 0 \<Longrightarrow> strip_zeros s e = (s, e)"
  by (subst strip_zeros.simps) simp

lemma strip_zeros_times_10: "0 < s \<Longrightarrow> strip_zeros (s * 10) e = strip_zeros s (e + 1)"
  by (subst strip_zeros.simps) simp

lemma strip_zeros_power: "0 < s \<Longrightarrow> strip_zeros (s * 10 ^ j) e = strip_zeros s (e + int j)"
proof (induction j arbitrary: e)
  case 0
  show ?case by simp
next
  case (Suc j)
  have "s * 10 ^ Suc j = (s * 10 ^ j) * 10" by simp
  moreover from Suc.prems have "0 < s * 10 ^ j" by simp
  ultimately have "strip_zeros (s * 10 ^ Suc j) e = strip_zeros (s * 10 ^ j) (e + 1)"
    by (simp only: strip_zeros_times_10)
  with Suc show ?case by (simp add: add.assoc)
qed

lemma strip_zeros_result:
  "0 < m \<Longrightarrow> strip_zeros m e = (s, e') \<Longrightarrow> 0 < s \<and> s mod 10 \<noteq> 0"
proof (induction m e rule: strip_zeros.induct)
  case (1 m e)
  show ?case
  proof (cases "m mod 10 = 0")
    case True
    with "1.prems" have "strip_zeros (m div 10) (e + 1) = (s, e')"
      by (subst (asm) strip_zeros.simps) simp
    moreover from True "1.prems" have "0 < m div 10" by presburger
    ultimately show ?thesis using "1.IH" True "1.prems" by simp
  next
    case False
    with "1.prems" show ?thesis by (subst (asm) strip_zeros.simps) auto
  qed
qed

lemma takeWhile_digits:
  assumes "\<And>c. c \<in> set ds \<Longrightarrow> is_digit c" and "\<not> is_digit x"
  shows "takeWhile is_digit (ds @ x # r) = ds" and "dropWhile is_digit (ds @ x # r) = x # r"
  using assms by (simp_all add: takeWhile_append2 dropWhile_append2)

lemma not_digit_marks [simp]:
  "\<not> is_digit (CHR '','')" "\<not> is_digit (CHR ''.'')" "\<not> is_digit (CHR ''e'')"
  "\<not> is_digit (CHR ''-'')" "\<not> is_digit (CHR ''+'')" "\<not> is_digit (CHR ''}'')"
  by (simp_all add: is_digit_def)

lemma parse_frac_none: "parse_frac (CHR '','' # r) = Some ([], CHR '','' # r)"
  "parse_frac (CHR ''e'' # r) = Some ([], CHR ''e'' # r)"
  by (simp_all add: parse_frac_def)

lemma parse_frac_some:
  assumes "fd \<noteq> []" "\<And>c. c \<in> set fd \<Longrightarrow> is_digit c" "\<not> is_digit x"
  shows "parse_frac (CHR ''.'' # fd @ x # r) = Some (fd, x # r)"
  using assms by (simp add: parse_frac_def takeWhile_digits Let_def)

lemma parse_exp_none: "parse_exp (CHR '','' # r) = Some (0, CHR '','' # r)"
  by (simp add: parse_exp_def)

lemma parse_exp_some:
  assumes "ed \<noteq> []" "\<And>c. c \<in> set ed \<Longrightarrow> is_digit c"
  shows "parse_exp (CHR ''e'' # (if eneg then ''-'' else ''+'') @ ed @ CHR '','' # r) =
           Some (if eneg then - digits_val ed else digits_val ed, CHR '','' # r)"
  using assms by (simp add: parse_exp_def takeWhile_digits Let_def)

text \<open>A number text in its parts: sign, integer digits, fraction, exponent, then a comma.\<close>

lemma parse_number_parts:
  assumes ip: "ip = d # dtl" "\<And>c. c \<in> set ip \<Longrightarrow> is_digit c" "d = CHR ''0'' \<Longrightarrow> dtl = []"
    and fd: "\<And>c. c \<in> set fd \<Longrightarrow> is_digit c"
    and fr: "frac = (if fd = [] then [] else CHR ''.'' # fd)"
    and ex: "(ep = [] \<and> ex = 0) \<or>
             (\<exists>eneg ed. ed \<noteq> [] \<and> (\<forall>c \<in> set ed. is_digit c) \<and>
                 ep = CHR ''e'' # (if eneg then ''-'' else ''+'') @ ed \<and>
                 ex = (if eneg then - digits_val ed else digits_val ed))"
  shows "parse_number ((if neg then ''-'' else []) @ ip @ frac @ ep @ CHR '','' # r) =
         Some (make_number neg (digits_val (ip @ fd)) (ex - int (length fd)), CHR '','' # r)"
proof -
  let ?tail = "(if fd = [] then [] else CHR ''.'' # fd) @ ep @ CHR '','' # r"
  have exp: "parse_exp (ep @ CHR '','' # r) = Some (ex, CHR '','' # r)"
    using ex by (auto simp add: parse_exp_none parse_exp_some)
  have ep_head: "\<exists>x t. ep @ CHR '','' # r = x # t \<and> \<not> is_digit x"
    using ex by auto
  then obtain x t where xt: "ep @ CHR '','' # r = x # t" "\<not> is_digit x" by blast
  have frac: "parse_frac ?tail = Some (fd, ep @ CHR '','' # r)"
  proof (cases "fd = []")
    case True
    with ex show ?thesis by (auto simp add: parse_frac_none)
  next
    case False
    with fd xt show ?thesis by (simp add: parse_frac_some)
  qed
  have "\<exists>y u. ?tail = y # u \<and> \<not> is_digit y"
    using xt by (cases "fd = []") auto
  then obtain y u where yu: "?tail = y # u" "\<not> is_digit y" by blast
  have tw: "takeWhile is_digit (ip @ ?tail) = ip" "dropWhile is_digit (ip @ ?tail) = ?tail"
    unfolding yu using ip(2) yu(2) by (simp_all add: takeWhile_digits)
  from ip have "is_digit d" by simp
  then have dm: "d \<noteq> CHR ''-''" by auto
  have "parse_number ((if neg then ''-'' else []) @ ip @ ?tail) =
        Some (make_number neg (digits_val (ip @ fd)) (ex - int (length fd)), CHR '','' # r)"
  proof (cases neg)
    case True
    then show ?thesis
      using tw frac exp ip(1,3)
      by (simp add: parse_number_def Let_def del: append_assoc)
  next
    case False
    then show ?thesis
      using tw frac exp ip(1,3) dm
      by (simp add: parse_number_def Let_def del: append_assoc)
  qed
  then show ?thesis by (simp add: fr)
qed

lemma digits_Cons: "0 < s \<Longrightarrow> \<exists>d dtl. digits s = d # dtl \<and> d \<noteq> CHR ''0''"
  using hd_digits [of s] digits_nonempty [of s] by (cases "digits s") auto

lemma parse_number_toString:
  "parse_number (Number_toString x @ CHR '','' # r) = Some (normal x, CHR '','' # r)"
proof (cases x)
  case (Number m e)
  show ?thesis
  proof (cases "m = 0")
    case True
    have "parse_number ((if False then ''-'' else []) @ ''0'' @ []
            @ [] @ CHR '','' # r) =
          Some (make_number False (digits_val (''0'' @ [])) (0 - int (length ([] :: string))), CHR '','' # r)"
      by (rule parse_number_parts [where neg = False and ip = "''0''" and d = "CHR ''0''" and dtl = "[]"
            and fd = "[]" and frac = "[]" and ep = "[]" and ex = 0 and r = r])
         (simp_all add: is_digit_def)
    with True Number show ?thesis
      by (simp add: Number_toString_def normal_def make_number_def digits_val_def)
  next
    case False
    obtain s e' where sz: "strip_zeros \<bar>m\<bar> e = (s, e')" by (cases "strip_zeros \<bar>m\<bar> e")
    from False have "0 < \<bar>m\<bar>" by simp
    from strip_zeros_result [OF this sz] have s: "0 < s" "s mod 10 \<noteq> 0" by simp_all
    let ?ds = "digits s"
    let ?k = "int (length ?ds)"
    let ?n = "e' + ?k"
    let ?neg = "m < 0"
    let ?sign = "if ?neg then ''-'' else []"
    from digits_Cons [OF s(1)] obtain d dtl where ds: "?ds = d # dtl" "d \<noteq> CHR ''0''" by blast
    have dig: "\<And>c. c \<in> set ?ds \<Longrightarrow> is_digit c"
      using digits_all_digit [of s] s(1) by simp
    have val: "digits_val ?ds = s" using s(1) by (simp add: digits_val_digits)
    have norm: "normal x = Number (if ?neg then - s else s) e'"
      using Number False sz by (simp add: normal_def make_number_def)
    have mk: "make_number ?neg s e' = Number (if ?neg then - s else s) e'"
      using s by (simp add: make_number_def strip_zeros_fix)
    have kpos: "0 < ?k" using ds by simp
    let ?ex = "(if ?n - 1 < 0 then ''-'' else ''+'') @ digits \<bar>?n - 1\<bar>"
    have exd: "\<And>c. c \<in> set (digits \<bar>?n - 1\<bar>) \<Longrightarrow> is_digit c"
      using digits_all_digit [of "\<bar>?n - 1\<bar>"] by simp
    have exv: "(if ?n - 1 < 0 then - digits_val (digits \<bar>?n - 1\<bar>) else digits_val (digits \<bar>?n - 1\<bar>)) = ?n - 1"
      by (simp add: digits_val_digits)
    consider (a) "?k \<le> ?n" "?n \<le> 21"
      | (b) "\<not> (?k \<le> ?n \<and> ?n \<le> 21)" "0 < ?n" "?n \<le> 21"
      | (c) "\<not> (?k \<le> ?n \<and> ?n \<le> 21)" "\<not> (0 < ?n \<and> ?n \<le> 21)" "- 6 < ?n" "?n \<le> 0"
      | (d) "\<not> (?k \<le> ?n \<and> ?n \<le> 21)" "\<not> (0 < ?n \<and> ?n \<le> 21)" "\<not> (- 6 < ?n \<and> ?n \<le> 0)" "?k = 1"
      | (e) "\<not> (?k \<le> ?n \<and> ?n \<le> 21)" "\<not> (0 < ?n \<and> ?n \<le> 21)" "\<not> (- 6 < ?n \<and> ?n \<le> 0)" "?k \<noteq> 1"
      by blast
    then have "parse_number (Number_toString x @ CHR '','' # r) =
               Some (make_number ?neg s e', CHR '','' # r)"
    proof cases
      case a
      let ?j = "nat (?n - ?k)"
      let ?ip = "?ds @ replicate ?j (CHR ''0'')"
      have shape: "Number_toString x = ?sign @ ?ip"
        using Number False sz a by (simp add: Number_toString_def Let_def)
      have "parse_number (?sign @ ?ip @ [] @ [] @ CHR '','' # r) =
            Some (make_number ?neg (digits_val (?ip @ [])) (0 - int (length ([] :: string))), CHR '','' # r)"
        using ds dig
        by (intro parse_number_parts [where neg = ?neg and ip = ?ip and d = d
              and dtl = "dtl @ replicate ?j (CHR ''0'')" and fd = "[]" and frac = "[]" and ep = "[]" and ex = 0 and r = r])
           (auto simp add: is_digit_def)
      moreover have "make_number ?neg (digits_val ?ip) 0 = make_number ?neg s e'"
      proof -
        have "strip_zeros (s * 10 ^ ?j) 0 = (s, e')"
          using s a by (simp add: strip_zeros_power strip_zeros_fix)
        with s mk show ?thesis
          by (simp add: digits_val_append_zeros val make_number_def)
      qed
      ultimately show ?thesis using shape by simp
    next
      case b
      let ?ip = "take (nat ?n) ?ds"
      let ?fd = "drop (nat ?n) ?ds"
      from b have lt: "nat ?n < length ?ds" "0 < nat ?n" by linarith+
      then have fdne: "?fd \<noteq> []" by simp
      have shape: "Number_toString x = ?sign @ ?ip @ ''.'' @ ?fd"
        using Number False sz b by (simp add: Number_toString_def Let_def)
      from lt ds obtain dtk where ip: "?ip = d # dtk"
        by (cases "nat ?n") auto
      have "parse_number (?sign @ ?ip @ (CHR ''.'' # ?fd) @ [] @ CHR '','' # r) =
            Some (make_number ?neg (digits_val (?ip @ ?fd)) (0 - int (length ?fd)), CHR '','' # r)"
      proof (rule parse_number_parts [where neg = ?neg and ip = ?ip and d = d and dtl = dtk
              and fd = ?fd and frac = "CHR ''.'' # ?fd" and ep = "[]" and ex = 0 and r = r])
        show "\<And>c. c \<in> set ?ip \<Longrightarrow> is_digit c" using dig by (auto dest: in_set_takeD)
        show "\<And>c. c \<in> set ?fd \<Longrightarrow> is_digit c" using dig by (auto dest: in_set_dropD)
      qed (use ip ds(2) fdne in simp_all)
      moreover have "0 - int (length ?fd) = e'" using lt by simp
      ultimately show ?thesis using shape fdne val by simp
    next
      case c
      let ?z = "replicate (nat (- ?n)) (CHR ''0'')"
      let ?fd = "?z @ ?ds"
      have shape: "Number_toString x = ?sign @ ''0'' @ ''.'' @ ?fd"
        using Number False sz c by (simp add: Number_toString_def Let_def)
      have fdne: "?fd \<noteq> []" using ds by simp
      have "parse_number (?sign @ ''0'' @ (CHR ''.'' # ?fd) @ [] @ CHR '','' # r) =
            Some (make_number ?neg (digits_val (''0'' @ ?fd)) (0 - int (length ?fd)), CHR '','' # r)"
        using dig
        by (intro parse_number_parts [where neg = ?neg and ip = "''0''" and d = "CHR ''0''" and dtl = "[]"
              and fd = ?fd and frac = "CHR ''.'' # ?fd" and ep = "[]" and ex = 0 and r = r])
           (auto simp add: is_digit_def digits_nonempty)
      moreover have "digits_val (''0'' @ ?fd) = s"
        using digits_val_zeros [of "Suc (nat (- ?n))" ?ds] val by simp
      moreover have "0 - int (length ?fd) = e'" using c by simp
      ultimately show ?thesis using shape fdne by simp
    next
      case d
      have shape: "Number_toString x = ?sign @ ?ds @ ''e'' @ ?ex"
        using Number False sz d by (auto simp add: Number_toString_def Let_def)
      have "parse_number (?sign @ ?ds @ []
              @ (CHR ''e'' # ?ex) @ CHR '','' # r) =
            Some (make_number ?neg (digits_val (?ds @ [])) ((?n - 1) - int (length ([] :: string))), CHR '','' # r)"
      proof (rule parse_number_parts [where neg = ?neg and ip = ?ds and d = d and dtl = dtl
              and fd = "[]" and frac = "[]" and ep = "CHR ''e'' # ?ex" and ex = "?n - 1" and r = r])
        show "\<And>c. c \<in> set ?ds \<Longrightarrow> is_digit c" by (rule dig)
        show "CHR ''e'' # ?ex = [] \<and> ?n - 1 = 0 \<or>
          (\<exists>eneg ed. ed \<noteq> [] \<and> (\<forall>c\<in>set ed. is_digit c) \<and>
             CHR ''e'' # ?ex = CHR ''e'' # (if eneg then ''-'' else ''+'') @ ed \<and>
             ?n - 1 = (if eneg then - digits_val ed else digits_val ed))"
          using exd exv
          by (intro disjI2 exI [of _ "?n - 1 < 0"] exI [of _ "digits \<bar>?n - 1\<bar>"])
             (simp add: digits_nonempty)
      qed (use ds in simp_all)
      moreover have "?n - 1 = e'" using d by simp
      ultimately show ?thesis using shape val by simp
    next
      case e
      let ?ip = "take 1 ?ds"
      let ?fd = "drop 1 ?ds"
      from e kpos have k2: "1 < length ?ds" by linarith
      then have fdne: "?fd \<noteq> []" by simp
      have shape: "Number_toString x = ?sign @ ?ip @ ''.'' @ ?fd @ ''e'' @ ?ex"
        using Number False sz e by (auto simp add: Number_toString_def Let_def)
      have ip: "?ip = [d]" using ds by simp
      have "parse_number (?sign @ ?ip @ (CHR ''.'' # ?fd)
              @ (CHR ''e'' # ?ex) @ CHR '','' # r) =
            Some (make_number ?neg (digits_val (?ip @ ?fd)) ((?n - 1) - int (length ?fd)), CHR '','' # r)"
      proof (rule parse_number_parts [where neg = ?neg and ip = ?ip and d = d and dtl = "[]"
              and fd = ?fd and frac = "CHR ''.'' # ?fd" and ep = "CHR ''e'' # ?ex" and ex = "?n - 1" and r = r])
        show "\<And>c. c \<in> set ?ip \<Longrightarrow> is_digit c" using dig by (auto dest: in_set_takeD)
        show "\<And>c. c \<in> set ?fd \<Longrightarrow> is_digit c" using dig by (auto dest: in_set_dropD)
        show "CHR ''e'' # ?ex = [] \<and> ?n - 1 = 0 \<or>
          (\<exists>eneg ed. ed \<noteq> [] \<and> (\<forall>c\<in>set ed. is_digit c) \<and>
             CHR ''e'' # ?ex = CHR ''e'' # (if eneg then ''-'' else ''+'') @ ed \<and>
             ?n - 1 = (if eneg then - digits_val ed else digits_val ed))"
          using exd exv
          by (intro disjI2 exI [of _ "?n - 1 < 0"] exI [of _ "digits \<bar>?n - 1\<bar>"])
             (simp add: digits_nonempty)
      qed (use ip fdne in simp_all)
      moreover have "(?n - 1) - int (length ?fd) = e'" using k2 by simp
      ultimately show ?thesis using shape fdne val by simp
    qed
    with norm mk show ?thesis by simp
  qed
qed

section \<open>Strings: text and back\<close>

lemma char_of_small:
  "char_of (8 :: int) = CHR 0x08" "char_of (9 :: int) = CHR 0x09" "char_of (10 :: int) = CHR 0x0A"
  "char_of (12 :: int) = CHR 0x0C" "char_of (13 :: int) = CHR 0x0D"
  by code_simp+

lemma char_by_code: "(of_char c :: int) = n \<Longrightarrow> c = char_of n"
  by (metis char_of_char)

lemma hex_val_hex_char: "0 \<le> d \<Longrightarrow> d < 16 \<Longrightarrow> hex_val (hex_char d) = Some d"
  by (simp add: hex_val_def hex_char_def Let_def)

lemma hex_val_zero: "hex_val (CHR ''0'') = Some 0"
  by (simp add: hex_val_def)

lemma hex4_control:
  "0 \<le> n \<Longrightarrow> n < 32 \<Longrightarrow>
   hex4 (CHR ''0'' # CHR ''0'' # hex_char (n div 16) # hex_char (n mod 16) # t) = Some n"
proof -
  assume "0 \<le> n" "n < 32"
  then have "hex_val (hex_char (n div 16)) = Some (n div 16)"
    "hex_val (hex_char (n mod 16)) = Some (n mod 16)"
    by (simp_all add: hex_val_hex_char)
  then show ?thesis by (simp add: hex4_def hex_val_zero)
qed

lemma prepend_Some: "prepend xs (Some (s, r)) = Some (xs @ s, r)"
  by (simp add: prepend_def)

lemma parse_chars_escape_char:
  "parse_chars (escape_char c @ t) = prepend [c] (parse_chars t)"
proof -
  let ?n = "of_char c :: int"
  have range: "0 \<le> ?n" by (metis of_nat_of_char of_nat_0_le_iff)
  consider (dq) "c = CHR 0x22" | (bs) "c = CHR 0x5C"
    | (b) "?n = 8" | (f) "?n = 12" | (n) "?n = 10" | (r) "?n = 13" | (t) "?n = 9"
    | (u) "c \<noteq> CHR 0x22" "c \<noteq> CHR 0x5C" "?n \<noteq> 8" "?n \<noteq> 12" "?n \<noteq> 10" "?n \<noteq> 13" "?n \<noteq> 9" "?n < 32"
    | (plain) "c \<noteq> CHR 0x22" "c \<noteq> CHR 0x5C" "\<not> ?n < 32"
    by fastforce
  then show ?thesis
  proof cases
    case dq
    then show ?thesis by (simp add: escape_char_def unescape_def)
  next
    case bs
    then show ?thesis by (simp add: escape_char_def unescape_def)
  next
    case b
    from char_by_code [OF this] have "c = CHR 0x08" by (simp add: char_of_small)
    then show ?thesis by (simp add: escape_char_def unescape_def)
  next
    case f
    from char_by_code [OF this] have "c = CHR 0x0C" by (simp add: char_of_small)
    then show ?thesis by (simp add: escape_char_def unescape_def)
  next
    case n
    from char_by_code [OF this] have "c = CHR 0x0A" by (simp add: char_of_small)
    then show ?thesis by (simp add: escape_char_def unescape_def)
  next
    case r
    from char_by_code [OF this] have "c = CHR 0x0D" by (simp add: char_of_small)
    then show ?thesis by (simp add: escape_char_def unescape_def)
  next
    case t
    from char_by_code [OF this] have "c = CHR 0x09" by (simp add: char_of_small)
    then show ?thesis by (simp add: escape_char_def unescape_def)
  next
    case u
    have esc: "escape_char c =
        [CHR 0x5C, CHR ''u'', CHR ''0'', CHR ''0'', hex_char (?n div 16), hex_char (?n mod 16)]"
      using u by (simp add: escape_char_def Let_def)
    have hx: "hex4 (CHR ''0'' # CHR ''0'' # hex_char (?n div 16) # hex_char (?n mod 16) # t) = Some ?n"
      using u range by (intro hex4_control) simp_all
    have ls: "low_surrogate ?n t = None" using u by (simp add: low_surrogate_def)
    have u8: "utf8 ?n = [c]" using u by (simp add: utf8_def)
    show ?thesis by (simp add: esc hx ls u8)
  next
    case plain
    then show ?thesis by (simp add: escape_char_def Let_def)
  qed
qed

lemma parse_chars_quote:
  "parse_chars (concat (map escape_char s) @ CHR 0x22 # r) = Some (s, r)"
proof (induction s)
  case Nil
  show ?case by simp
next
  case (Cons c s)
  have "parse_chars (escape_char c @ (concat (map escape_char s) @ CHR 0x22 # r)) =
        prepend [c] (parse_chars (concat (map escape_char s) @ CHR 0x22 # r))"
    by (rule parse_chars_escape_char)
  with Cons show ?case by (simp add: prepend_Some)
qed

section \<open>Values and objects: text and back\<close>

lemma skip_ws_not_ws: "\<not> is_ws c \<Longrightarrow> skip_ws (c # s) = c # s"
  by (simp add: skip_ws_def)

lemma skip_ws_marks [simp]:
  "skip_ws (CHR '','' # s) = CHR '','' # s" "skip_ws (CHR ''}'' # s) = CHR ''}'' # s"
  "skip_ws (CHR '':'' # s) = CHR '':'' # s" "skip_ws (CHR 0x22 # s) = CHR 0x22 # s"
  "skip_ws (CHR ''{'' # s) = CHR ''{'' # s" "skip_ws [] = []"
  by (simp_all add: skip_ws_def is_ws_def)

lemma quote_Cons: "quote s = CHR 0x22 # concat (map escape_char s) @ [CHR 0x22]"
  by (simp add: quote_def)

lemma skip_ws_quote [simp]: "skip_ws (quote k @ r) = quote k @ r"
  by (simp add: quote_Cons)

lemma length_quote: "2 \<le> length (quote s)"
  by (simp add: quote_Cons)

lemma parse_value_quote [simp]: "parse_value (quote s @ r) = Some (JStr s, r)"
  by (subst parse_value.simps) (simp add: quote_Cons parse_chars_quote)

lemma Number_toString_head:
  "\<exists>c cs. Number_toString x = c # cs \<and> (c = CHR ''-'' \<or> is_digit c)"
proof (cases x)
  case (Number m e)
  show ?thesis
  proof (cases "m = 0")
    case True
    with Number show ?thesis by (simp add: Number_toString_def is_digit_def)
  next
    case False
    obtain s e' where sz: "strip_zeros \<bar>m\<bar> e = (s, e')" by (cases "strip_zeros \<bar>m\<bar> e")
    from False have "0 < \<bar>m\<bar>" by simp
    from strip_zeros_result [OF this sz] have s: "0 < s" by simp
    from digits_Cons [OF s] obtain d dtl where ds: "digits s = d # dtl" by blast
    have "is_digit d" using digits_all_digit [of s d] s ds by simp
    moreover have "is_digit (CHR ''0'')" by (simp add: is_digit_def)
    ultimately show ?thesis
      using Number False sz ds
      by (cases "m < 0") (auto simp add: Number_toString_def Let_def take_Cons' split: if_splits)
  qed
qed

lemma parse_value_number [simp]:
  "parse_value (Number_toString x @ CHR '','' # r) = Some (JNum (normal x), CHR '','' # r)"
proof -
  from Number_toString_head [of x] obtain c cs
    where head: "Number_toString x = c # cs" "c = CHR ''-'' \<or> is_digit c" by blast
  from head(2) have c: "\<not> is_ws c" "c \<noteq> CHR ''{''" "c \<noteq> CHR ''[''" "c \<noteq> CHR 0x22"
    "c \<noteq> CHR ''t''" "c \<noteq> CHR ''f''" "c \<noteq> CHR ''n''"
    by (auto simp add: is_ws_def is_digit_def)
  have "parse_number (c # cs @ CHR '','' # r) = Some (normal x, CHR '','' # r)"
    using parse_number_toString [of x r] head(1) by simp
  with c head(2) show ?thesis
    unfolding head(1) by (subst parse_value.simps) (simp add: skip_ws_not_ws)
qed

text \<open>A member that starts an object text, and the members after a comma.\<close>

lemma parse_members_unfold:
  "parse_members (quote k @ CHR '':'' # rest) =
     (case parse_value rest of
        None \<Rightarrow> None
      | Some (v, after) \<Rightarrow>
          (case skip_ws after of
             [] \<Rightarrow> None
           | c # nxt \<Rightarrow>
               if c = CHR '','' then
                 (if length nxt < length (quote k @ CHR '':'' # rest) then
                    (case parse_members nxt of
                       None \<Rightarrow> None
                     | Some (kvs, r) \<Rightarrow> Some ((k, v) # kvs, r))
                  else None)
               else if c = CHR ''}'' then Some ([(k, v)], nxt)
               else None))"
  by (subst parse_members.simps) (simp add: quote_Cons parse_chars_quote)

lemma parse_value_object:
  "parse_value (CHR ''{'' # quote k @ rest) =
     (case parse_members (quote k @ rest) of
        None \<Rightarrow> None
      | Some (kvs, r) \<Rightarrow> Some (JObj (properties kvs), r))"
  by (subst parse_value.simps) (simp add: quote_Cons)

lemma ser_product: "ser [] [] (product_val p) = Some (product_text p)"
  by (simp add: product_val_def product_text_def)

lemma ser_envelope:
  "ser [] [] payload = Some s \<Longrightarrow>
   JSON_stringify (envelope t payload now) = Some (envelope_text t s now)"
  by (simp add: JSON_stringify_def envelope_def envelope_text_def)

lemma parse_value_product: "parse_value (product_text p @ r) = Some (product_json p, r)"
  by (simp add: product_text_def product_json_def parse_value_object parse_members_unfold
        properties_def)

lemma parse_value_envelope:
  "parse_value (envelope_text t (product_text p) now @ r) =
     Some (JObj [(''type'', JStr t), (''payload'', product_json p),
                 (''timestamp'', JStr (toISOString now))], r)"
  by (simp add: envelope_text_def parse_value_object parse_members_unfold parse_value_product
        properties_def)

lemma JSON_parse_envelope:
  "JSON_parse (envelope_text t (product_text p) now) =
     Some (JObj [(''type'', JStr t), (''payload'', product_json p),
                 (''timestamp'', JStr (toISOString now))])"
  using parse_value_envelope [of t p now "[]"] by (simp add: JSON_parse_def)

section \<open>The parser consumes its input\<close>

lemma length_skip_ws: "length (skip_ws s) \<le> length s"
  by (simp add: skip_ws_def length_dropWhile_le)

lemma skip_ws_Cons_shorter: "skip_ws s = c # r \<Longrightarrow> length r < length s"
  using length_skip_ws [of s] by simp

lemma prepend_SomeD: "prepend xs t = Some (x, r) \<Longrightarrow> \<exists>y. t = Some (y, r)"
  by (auto simp add: prepend_def split: option.splits)

lemma parse_chars_shorter: "parse_chars s = Some (x, r) \<Longrightarrow> length r < length s"
proof (induction s arbitrary: x rule: parse_chars.induct)
  case 1
  then show ?case by simp
next
  case (2 c cs)
  show ?case
  proof (cases "c = CHR 0x22")
    case True
    with "2.prems" show ?thesis by simp
  next
    case quoted: False
    show ?thesis
    proof (cases "c = CHR 0x5C")
      case False
      with quoted "2.prems" obtain y where "parse_chars cs = Some (y, r)"
        by (auto split: if_splits dest: prepend_SomeD)
      with "2.IH"(4) [of y] quoted False "2.prems" show ?thesis
        by (auto split: if_splits)
    next
      case True
      with quoted "2.prems" obtain e rest where cs: "cs = e # rest"
        by (cases cs) auto
      show ?thesis
      proof (cases "e = CHR ''u''")
        case False
        with quoted True cs "2.prems" obtain ch y
          where "unescape e = Some ch" "parse_chars rest = Some (y, r)"
          by (auto split: option.splits dest: prepend_SomeD)
        with "2.IH"(3) [OF quoted True cs False, of ch y] cs show ?thesis by simp
      next
        case u: True
        with quoted True cs "2.prems" obtain cu where cu: "hex4 rest = Some cu"
          by (auto split: option.splits)
        show ?thesis
        proof (cases "low_surrogate cu (drop 4 rest)")
          case None
          with quoted True cs u cu "2.prems" obtain y
            where "parse_chars (drop 4 rest) = Some (y, r)"
            by (auto dest: prepend_SomeD)
          with "2.IH"(1) [OF quoted True cs u cu None, of y] cs show ?thesis by simp
        next
          case (Some lo)
          with quoted True cs u cu "2.prems" obtain y
            where "parse_chars (drop 10 rest) = Some (y, r)"
            by (auto dest: prepend_SomeD)
          with "2.IH"(2) [OF quoted True cs u cu Some, of y] cs show ?thesis by simp
        qed
      qed
    qed
  qed
qed

lemma parse_frac_shorter: "parse_frac s = Some (fd, r) \<Longrightarrow> length r \<le> length s"
  using length_dropWhile_le [of is_digit "tl s"]
  by (cases s) (auto simp add: parse_frac_def Let_def split: if_splits)

lemma parse_exp_shorter: "parse_exp s = Some (ex, r) \<Longrightarrow> length r \<le> length s"
proof (cases s)
  case Nil
  assume "parse_exp s = Some (ex, r)"
  with Nil show ?thesis by (simp add: parse_exp_def)
next
  case (Cons c cs)
  assume p: "parse_exp s = Some (ex, r)"
  show ?thesis
  proof (cases "c = CHR ''e'' \<or> c = CHR ''E''")
    case False
    with p Cons show ?thesis by (simp add: parse_exp_def)
  next
    case True
    obtain neg cs' where sg: "(case cs of [] \<Rightarrow> (False, cs)
                    | d # ds \<Rightarrow> if d = CHR ''-'' then (True, ds)
                                else if d = CHR ''+'' then (False, ds) else (False, cs)) = (neg, cs')"
      by (cases "(case cs of [] \<Rightarrow> (False, cs)
                    | d # ds \<Rightarrow> if d = CHR ''-'' then (True, ds)
                                else if d = CHR ''+'' then (False, ds) else (False, cs))")
    then have "length cs' \<le> length cs" by (auto split: list.splits if_splits)
    moreover from p Cons True sg have "r = dropWhile is_digit cs'"
      by (auto simp add: parse_exp_def Let_def split: if_splits)
    ultimately show ?thesis
      using Cons length_dropWhile_le [of is_digit cs'] by simp
  qed
qed

lemma parse_number_shorter: "parse_number s = Some (x, r) \<Longrightarrow> length r < length s"
proof -
  assume p: "parse_number s = Some (x, r)"
  obtain neg rest where sg: "(case s of [] \<Rightarrow> (False, s)
                       | c # cs \<Rightarrow> if c = CHR ''-'' then (True, cs) else (False, s)) = (neg, rest)"
    by (cases "(case s of [] \<Rightarrow> (False, s)
                       | c # cs \<Rightarrow> if c = CHR ''-'' then (True, cs) else (False, s))")
  then have a: "length rest \<le> length s" by (auto split: list.splits if_splits)
  from p sg obtain fd mid ex where parts: "takeWhile is_digit rest \<noteq> []"
      "parse_frac (dropWhile is_digit rest) = Some (fd, mid)" "parse_exp mid = Some (ex, r)"
    by (auto simp add: parse_number_def Let_def split: list.splits if_splits option.splits)
  have "length (takeWhile is_digit rest) + length (dropWhile is_digit rest) = length rest"
    by (metis length_append takeWhile_dropWhile_id)
  with parts(1) have "length (dropWhile is_digit rest) < length rest"
    by (cases "takeWhile is_digit rest") auto
  with a parse_frac_shorter [OF parts(2)] parse_exp_shorter [OF parts(3)] show ?thesis by simp
qed

lemma parse_shorter:
  "parse_value s = Some (v, r) \<Longrightarrow> length r < length s"
  "parse_elements sa = Some (vs, ra) \<Longrightarrow> length ra < length sa"
  "parse_members sb = Some (kvs, rb) \<Longrightarrow> length rb < length sb"
proof (induction s and sa and sb arbitrary: v r and vs ra and kvs rb
       rule: parse_value_parse_elements_parse_members.induct)
  case (1 s)
  note eq = parse_value.simps [of s]
  show ?case
  proof (cases "skip_ws s")
    case Nil
    with "1.prems" eq show ?thesis by simp
  next
    case (Cons c cs)
    then have cs: "length cs < length s" by (rule skip_ws_Cons_shorter)
    then have le: "length (c # cs) \<le> length s" by simp
    show ?thesis
    proof (cases "c = CHR ''{''")
      case obj: True
      show ?thesis
      proof (cases "skip_ws cs")
        case Nil
        with "1.prems" eq Cons obj show ?thesis by simp
      next
        case inner: (Cons d t)
        then have t: "length t < length cs" by (rule skip_ws_Cons_shorter)
        show ?thesis
        proof (cases "d = CHR ''}''")
          case True
          with "1.prems" eq Cons obj inner have "r = t" by simp
          with t cs show ?thesis by simp
        next
          case False
          with "1.prems" eq Cons obj inner obtain m where "parse_members cs = Some (m, r)"
            by (cases "parse_members cs") auto
          from "1.IH"(1) [OF Cons obj inner False this] cs show ?thesis by simp
        qed
      qed
    next
      case not_obj: False
      show ?thesis
      proof (cases "c = CHR ''[''")
        case arr: True
        show ?thesis
        proof (cases "skip_ws cs")
          case Nil
          with "1.prems" eq Cons arr show ?thesis by simp
        next
          case inner: (Cons d t)
          then have t: "length t < length cs" by (rule skip_ws_Cons_shorter)
          show ?thesis
          proof (cases "d = CHR '']''")
            case True
            with "1.prems" eq Cons arr inner have "r = t" by simp
            with t cs show ?thesis by simp
          next
            case False
            with "1.prems" eq Cons arr inner obtain m where "parse_elements cs = Some (m, r)"
              by (cases "parse_elements cs") auto
            from "1.IH"(2) [OF Cons not_obj arr inner False this] cs show ?thesis by simp
          qed
        qed
      next
        case not_arr: False
        from "1.prems" have p:
          "(if c = CHR 0x22 then
              (case parse_chars cs of None \<Rightarrow> None | Some (str, r) \<Rightarrow> Some (JStr str, r))
            else if take 4 (c # cs) = ''true'' then Some (JBool True, drop 4 (c # cs))
            else if take 5 (c # cs) = ''false'' then Some (JBool False, drop 5 (c # cs))
            else if take 4 (c # cs) = ''null'' then Some (JNull, drop 4 (c # cs))
            else if c = CHR ''-'' \<or> is_digit c then
              (case parse_number (c # cs) of None \<Rightarrow> None | Some (x, r) \<Rightarrow> Some (JNum x, r))
            else None) = Some (v, r)"
          by (simp only: eq Cons list.case not_obj not_arr if_False)
        show ?thesis
        proof (cases "c = CHR 0x22")
          case True
          with p have "(case parse_chars cs of None \<Rightarrow> None
                         | Some (str, r) \<Rightarrow> Some (JStr str, r)) = Some (v, r)"
            by (simp only: if_P if_True)
          then obtain y where "parse_chars cs = Some (y, r)"
            by (cases "parse_chars cs") auto
          from parse_chars_shorter [OF this] cs show ?thesis by simp
        next
          case not_str: False
          show ?thesis
          proof (cases "take 4 (c # cs) = ''true''")
            case True
            with p not_str have "Some (JBool True, drop 4 (c # cs)) = Some (v, r)"
              by (simp only: if_P if_not_P if_True if_False)
            with le show ?thesis by auto
          next
            case not_true: False
            show ?thesis
            proof (cases "take 5 (c # cs) = ''false''")
              case True
              with p not_str not_true have "Some (JBool False, drop 5 (c # cs)) = Some (v, r)"
                by (simp only: if_P if_not_P if_True if_False)
              with le show ?thesis by auto
            next
              case not_false: False
              show ?thesis
              proof (cases "take 4 (c # cs) = ''null''")
                case True
                with p not_str not_true not_false
                have "Some (JNull, drop 4 (c # cs)) = Some (v, r)"
                  by (simp only: if_P if_not_P if_True if_False)
                with le show ?thesis by auto
              next
                case not_null: False
                show ?thesis
                proof (cases "c = CHR ''-'' \<or> is_digit c")
                  case True
                  with p not_str not_true not_false not_null
                  have "(case parse_number (c # cs) of None \<Rightarrow> None
                         | Some (x, r) \<Rightarrow> Some (JNum x, r)) = Some (v, r)"
                    by (simp only: if_P if_not_P if_True if_False)
                  then obtain x where "parse_number (c # cs) = Some (x, r)"
                    by (cases "parse_number (c # cs)") auto
                  from parse_number_shorter [OF this] le show ?thesis by simp
                next
                  case False
                  with p not_str not_true not_false not_null have "None = Some (v, r)"
                    by (simp only: if_P if_not_P if_True if_False)
                  then show ?thesis by simp
                qed
              qed
            qed
          qed
        qed
      qed
    qed
  qed
next
  case (2 s)
  note p = "2.prems" [unfolded parse_elements.simps [of s]]
  from p obtain v r where pv: "parse_value s = Some (v, r)"
    by (auto split: option.splits)
  from "2.IH"(1) [OF pv] have r: "length r < length s" .
  from p pv obtain c t where sk: "skip_ws r = c # t"
    by (auto split: list.splits)
  then have t: "length t < length r" by (rule skip_ws_Cons_shorter)
  show ?case
  proof (cases "c = CHR '',''")
    case True
    with p pv sk obtain m where "parse_elements t = Some (m, ra)"
      by (auto split: if_splits option.splits)
    from "2.IH"(2) [OF pv refl sk True _ this] r t show ?thesis by simp
  next
    case False
    with p pv sk have "ra = t" by (auto split: if_splits)
    with r t show ?thesis by simp
  qed
next
  case (3 s)
  note p = "3.prems" [unfolded parse_members.simps [of s]]
  from p obtain q cs where sk: "skip_ws s = q # cs" by (auto split: list.splits)
  with p have q: "q = CHR 0x22" by (auto split: if_splits)
  from p sk q obtain k r where pc: "parse_chars cs = Some (k, r)"
    by (auto split: option.splits)
  from p sk q pc obtain col t where sk2: "skip_ws r = col # t"
    by (auto split: list.splits)
  with p sk q pc have col: "col = CHR '':'' \<and> length t < length s"
    by (auto split: if_splits)
  from p sk q pc sk2 col obtain v after where pv: "parse_value t = Some (v, after)"
    by (auto split: option.splits)
  from "3.IH"(1) [OF sk q pc refl sk2 col pv] have after: "length after < length t" .
  from p sk q pc sk2 col pv obtain c nxt where sk3: "skip_ws after = c # nxt"
    by (auto split: list.splits)
  then have nxt: "length nxt < length after" by (rule skip_ws_Cons_shorter)
  show ?case
  proof (cases "c = CHR '',''")
    case True
    with p sk q pc sk2 col pv sk3 obtain m where "parse_members nxt = Some (m, rb)"
      by (auto split: if_splits option.splits)
    from "3.IH"(2) [OF sk q pc refl sk2 col pv refl sk3 True _ this] col after nxt
    show ?thesis by simp
  next
    case False
    with p sk q pc sk2 col pv sk3 have "rb = nxt" by (auto split: if_splits)
    with col after nxt show ?thesis by simp
  qed
qed

text \<open>The tests on the lengths never fail: the parser satisfies the equations without them.\<close>

lemma parse_elements_unguarded:
  "parse_elements s =
     (case parse_value s of
        None \<Rightarrow> None
      | Some (v, r) \<Rightarrow>
          (case skip_ws r of
             [] \<Rightarrow> None
           | c # r' \<Rightarrow>
               if c = CHR '','' then
                 (case parse_elements r' of
                    None \<Rightarrow> None
                  | Some (vs, r'') \<Rightarrow> Some (v # vs, r''))
               else if c = CHR '']'' then Some ([v], r')
               else None))"
proof (cases "parse_value s")
  case None
  then show ?thesis by (subst parse_elements.simps) simp
next
  case (Some a)
  obtain v r where a: "a = (v, r)" by (cases a)
  with Some have r: "length r < length s" by (simp add: parse_shorter(1))
  show ?thesis
  proof (cases "skip_ws r")
    case Nil
    with Some a show ?thesis by (subst parse_elements.simps) simp
  next
    case (Cons c r')
    from skip_ws_Cons_shorter [OF this] r have "length r' < length s" by simp
    with Some a Cons show ?thesis by (subst parse_elements.simps) simp
  qed
qed

lemma parse_members_unguarded:
  "parse_members s =
     (case skip_ws s of
        [] \<Rightarrow> None
      | q # cs \<Rightarrow>
          if q = CHR 0x22 then
            (case parse_chars cs of
               None \<Rightarrow> None
             | Some (k, r) \<Rightarrow>
                 (case skip_ws r of
                    [] \<Rightarrow> None
                  | col # ra \<Rightarrow>
                      if col = CHR '':'' then
                        (case parse_value ra of
                           None \<Rightarrow> None
                         | Some (v, rb) \<Rightarrow>
                             (case skip_ws rb of
                                [] \<Rightarrow> None
                              | c # rc \<Rightarrow>
                                  if c = CHR '','' then
                                    (case parse_members rc of
                                       None \<Rightarrow> None
                                     | Some (kvs, rd) \<Rightarrow> Some ((k, v) # kvs, rd))
                                  else if c = CHR ''}'' then Some ([(k, v)], rc)
                                  else None))
                      else None))
          else None)"
proof (cases "skip_ws s")
  case Nil
  then show ?thesis by (subst parse_members.simps) simp
next
  case (Cons q cs)
  then have cs: "length cs < length s" by (rule skip_ws_Cons_shorter)
  show ?thesis
  proof (cases "parse_chars cs")
    case None
    with Cons show ?thesis by (subst parse_members.simps) simp
  next
    case (Some a)
    obtain k r where a: "a = (k, r)" by (cases a)
    with Some have r: "length r < length cs" by (simp add: parse_chars_shorter)
    show ?thesis
    proof (cases "skip_ws r")
      case Nil
      with Cons Some a show ?thesis by (subst parse_members.simps) simp
    next
      case colon: (Cons col ra)
      from skip_ws_Cons_shorter [OF this] r cs have ra: "length ra < length s" by simp
      show ?thesis
      proof (cases "parse_value ra")
        case None
        with Cons Some a colon show ?thesis by (subst parse_members.simps) simp
      next
        case val: (Some b)
        obtain v rb where b: "b = (v, rb)" by (cases b)
        with val have rb: "length rb < length ra" by (simp add: parse_shorter(1))
        show ?thesis
        proof (cases "skip_ws rb")
          case Nil
          with Cons Some a colon val b show ?thesis by (subst parse_members.simps) simp
        next
          case sep: (Cons c rc)
          from skip_ws_Cons_shorter [OF this] rb ra have "length rc < length s" by simp
          with Cons Some a colon val b sep ra show ?thesis
            by (subst parse_members.simps) simp
        qed
      qed
    qed
  qed
qed

section \<open>The one representation of a number\<close>

lemma strip_zeros_value:
  "0 < m \<Longrightarrow> strip_zeros m e = (s, e') \<Longrightarrow> e \<le> e' \<and> m = s * 10 ^ nat (e' - e)"
proof (induction m e rule: strip_zeros.induct)
  case (1 m e)
  show ?case
  proof (cases "m mod 10 = 0")
    case True
    with "1.prems" have step: "strip_zeros (m div 10) (e + 1) = (s, e')"
      by (subst (asm) strip_zeros.simps) simp
    moreover from True "1.prems" have "0 < m div 10" by presburger
    ultimately have ih: "e + 1 \<le> e'" "m div 10 = s * 10 ^ nat (e' - (e + 1))"
      using "1.IH" True "1.prems" by simp_all
    from ih(1) have "nat (e' - e) = Suc (nat (e' - (e + 1)))" by simp
    moreover from True have "m = (m div 10) * 10" by presburger
    ultimately show ?thesis using ih by simp
  next
    case False
    with "1.prems" show ?thesis by (subst (asm) strip_zeros.simps) auto
  qed
qed

text \<open>\<open>normal\<close> changes the representation of a number, not the number.\<close>

lemma normal_same_value:
  assumes "normal (Number m e) = Number m' e'"
  shows "(m = 0 \<and> m' = 0) \<or> (e \<le> e' \<and> m = m' * 10 ^ nat (e' - e))"
proof (cases "m = 0")
  case True
  with assms show ?thesis by (simp add: normal_def make_number_def)
next
  case False
  obtain s k where sz: "strip_zeros \<bar>m\<bar> e = (s, k)" by (cases "strip_zeros \<bar>m\<bar> e")
  from False have "0 < \<bar>m\<bar>" by simp
  from strip_zeros_value [OF this sz] have v: "e \<le> k" "\<bar>m\<bar> = s * 10 ^ nat (k - e)" by simp_all
  from assms False sz have r: "m' = (if m < 0 then - s else s)" "e' = k"
    by (simp_all add: normal_def make_number_def)
  show ?thesis
  proof (cases "m < 0")
    case True
    with v r show ?thesis by simp
  next
    case False
    with v r show ?thesis by simp
  qed
qed

lemma normal_fixed: "m mod 10 \<noteq> 0 \<Longrightarrow> normal (Number m e) = Number m e"
proof -
  assume a: "m mod 10 \<noteq> 0"
  then have "m \<noteq> 0" by auto
  moreover from a have "\<bar>m\<bar> mod 10 \<noteq> 0" by presburger
  ultimately show ?thesis
    by (simp add: normal_def make_number_def strip_zeros_fix)
qed

section \<open>Dates on the wire, and the console of the consumer\<close>

lemma toISOString_example: "toISOString 1793679960123 = ''2026-11-03T04:26:00.123Z''"
  by code_simp

lemma toISOString_epoch: "toISOString 0 = ''1970-01-01T00:00:00.000Z''"
  by code_simp

lemma try_block_appends:
  "try_block tp part body con = (fst (try_block tp part body []), con @ snd (try_block tp part body []))"
  by (simp add: try_block_def Let_def split: option.splits sum.splits)

lemma handleMessage_appends:
  "handleMessage p con = (Inr (), con @ snd (handleMessage p []))"
proof (cases "msg_value (payload_message p)")
  case None
  then show ?thesis by (simp add: handleMessage_def)
next
  case (Some body)
  show ?thesis
  proof (cases "body = []")
    case True
    with Some show ?thesis by (simp add: handleMessage_def)
  next
    case False
    obtain res out where t: "try_block (payload_topic p) (payload_partition p) body [] = (res, out)"
      by (cases "try_block (payload_topic p) (payload_partition p) body []")
    with try_block_appends [of "payload_topic p" "payload_partition p" body con]
    have "try_block (payload_topic p) (payload_partition p) body con = (res, con @ out)" by simp
    with Some False t show ?thesis
      by (cases res) (simp_all add: handleMessage_def)
  qed
qed

lemma consume_all:
  "consume ps con = (Inr (), con @ concat (map (\<lambda>p. snd (handleMessage p [])) ps))"
proof (induction ps arbitrary: con)
  case Nil
  show ?case by simp
next
  case (Cons p ps)
  have "handleMessage p con = (Inr (), con @ snd (handleMessage p []))"
    by (rule handleMessage_appends)
  with Cons [of "con @ snd (handleMessage p [])"] show ?case by simp
qed

lemma envelope_text_nonempty: "envelope_text t s now \<noteq> []"
  by (simp add: envelope_text_def)

lemma handleMessage_envelope:
  assumes "msg_value (payload_message p) = JSON_stringify (envelope t (product_val q) now)"
  shows "handleMessage p con =
           (Inr (), con @ [LogEvent (payload_topic p) (payload_partition p) (JStr t)
                             (JStr (toISOString now)),
                           LogPayload (JSON_stringify2 (product_json q))])"
proof -
  from assms have "msg_value (payload_message p) = Some (envelope_text t (product_text q) now)"
    by (simp add: ser_envelope [OF ser_product])
  then show ?thesis
    by (simp add: handleMessage_def envelope_text_nonempty try_block_def JSON_parse_envelope
          get_prop_def Let_def)
qed

text \<open>What \<open>JSON.parse\<close> returns is never \<open>undefined\<close> and never a \<open>Date\<close>.\<close>

lemma parse_value_kind:
  assumes "parse_value s = Some (v, r)"
  shows "v \<noteq> JUndefined \<and> (\<forall>t. v \<noteq> JDate t)"
proof -
  note eq = parse_value.simps [of s]
  show ?thesis
  proof (cases "skip_ws s")
    case Nil
    with assms eq show ?thesis by simp
  next
    case (Cons c cs)
    from assms have p:
      "(if c = CHR ''{'' then
            (case skip_ws cs of
               [] \<Rightarrow> None
             | d # r \<Rightarrow>
                 if d = CHR ''}'' then Some (JObj [], r)
                 else (case parse_members cs of
                         None \<Rightarrow> None
                       | Some (kvs, r') \<Rightarrow> Some (JObj (properties kvs), r')))
          else if c = CHR ''['' then
            (case skip_ws cs of
               [] \<Rightarrow> None
             | d # r \<Rightarrow>
                 if d = CHR '']'' then Some (JArr [], r)
                 else (case parse_elements cs of
                         None \<Rightarrow> None
                       | Some (vs, r') \<Rightarrow> Some (JArr vs, r')))
          else if c = CHR 0x22 then
            (case parse_chars cs of None \<Rightarrow> None | Some (str, r) \<Rightarrow> Some (JStr str, r))
          else if take 4 (c # cs) = ''true'' then Some (JBool True, drop 4 (c # cs))
          else if take 5 (c # cs) = ''false'' then Some (JBool False, drop 5 (c # cs))
          else if take 4 (c # cs) = ''null'' then Some (JNull, drop 4 (c # cs))
          else if c = CHR ''-'' \<or> is_digit c then
            (case parse_number (c # cs) of None \<Rightarrow> None | Some (x, r) \<Rightarrow> Some (JNum x, r))
          else None) = Some (v, r)"
      by (simp only: eq Cons list.case)
    then show ?thesis
      by (simp only: split: if_split_asm list.split_asm option.split_asm prod.split_asm) auto
  qed
qed

lemma JSON_parse_kind: "JSON_parse s = Some v \<Longrightarrow> v \<noteq> JUndefined \<and> (\<forall>t. v \<noteq> JDate t)"
  by (auto simp add: JSON_parse_def split: option.splits prod.splits if_splits dest: parse_value_kind)

text \<open>The console after one message, by the value the text of the message parses to.\<close>

lemma handleMessage_missing:
  "msg_value (payload_message p) = None \<or> msg_value (payload_message p) = Some [] \<Longrightarrow>
   handleMessage p con = (Inr (), con)"
  by (auto simp add: handleMessage_def)

lemma handleMessage_parsed:
  assumes "msg_value (payload_message p) = Some body" "body \<noteq> []"
  shows "snd (handleMessage p con) =
     con @
     (case JSON_parse body of
        None \<Rightarrow> [LogFailure SyntaxError]
      | Some v \<Rightarrow>
          (case v of
             JNull \<Rightarrow> [LogFailure TypeError]
           | JUndefined \<Rightarrow> [LogFailure TypeError]
           | JObj kvs \<Rightarrow>
               (let ty = (case map_of kvs ''type'' of None \<Rightarrow> JUndefined | Some x \<Rightarrow> x);
                    ts = (case map_of kvs ''timestamp'' of None \<Rightarrow> JUndefined | Some x \<Rightarrow> x);
                    pl = (case map_of kvs ''payload'' of None \<Rightarrow> JUndefined | Some x \<Rightarrow> x)
                in if to_string_throws ty \<or> to_string_throws ts then [LogFailure TypeError]
                   else [LogEvent (payload_topic p) (payload_partition p) ty ts,
                         LogPayload (JSON_stringify2 pl)])
           | _ \<Rightarrow> [LogEvent (payload_topic p) (payload_partition p) JUndefined JUndefined,
                     LogPayload (JSON_stringify2 JUndefined)]))"
  using assms
  by (simp add: handleMessage_def try_block_def get_prop_def Let_def
        split: option.splits jsval.splits)

section \<open>A failed publish and the caller\<close>

text \<open>
  C1, as stated: after a successful store mutation, a failed publish does not alter the
  outcome of create, update or remove for the caller. The methods \<open>await\<close> the publish
  with nothing to catch its rejection, so the statement fails: with the broker down,
  \<open>create\<close> stores the product and then rejects with the publish failure.
\<close>

theorem create_rejects_when_publish_fails:
  "fst (create laptop (demo (\<lambda>n. False))) = Inl DeliveryFailed \<and>
   products (snd (create laptop (demo (\<lambda>n. False)))) =
     [(''id'', \<lparr>id' = ''id'', name = ''Laptop'', description = ''Gaming laptop'',
                  price = Number 99999 (- 2), createdAt = 0, updatedAt = 0\<rparr>)]"
  by (simp add: create_eq emit_snd demo_def boot_def laptop_def Map_set_def Let_def)

text \<open>
  C1, amended: when the publish that follows a store mutation fails, the mutation stays
  in the mapping (nothing is rolled back), and the call rejects with \<open>DeliveryFailed\<close>
  instead of completing with the mutation's result.
\<close>

theorem delivery_failure_reaches_caller:
  "\<not> broker w (length (sent w)) \<Longrightarrow>
   (fst (create dto w) = Inl DeliveryFailed \<and>
    products (snd (create dto w)) =
      Map_set (uuids w (uuid_calls w))
        \<lparr>id' = uuids w (uuid_calls w), name = c_name dto, description = c_description dto,
         price = c_price dto, createdAt = clock w (ticks w), updatedAt = clock w (ticks w)\<rparr>
        (products w)) \<and>
   (Map_get (products w) i = Some existing \<longrightarrow>
    fst (update i udto w) = Inl DeliveryFailed \<and>
    products (snd (update i udto w)) =
      Map_set i
        (existing
         \<lparr>name := (case u_name udto of None \<Rightarrow> name existing | Some n \<Rightarrow> n),
          description := (case u_description udto of None \<Rightarrow> description existing | Some d \<Rightarrow> d),
          price := (case u_price udto of None \<Rightarrow> price existing | Some x \<Rightarrow> x),
          updatedAt := clock w (ticks w)\<rparr>)
        (products w)) \<and>
   (Map_get (products w) j = Some p \<longrightarrow>
    fst (remove j w) = Inl DeliveryFailed \<and>
    products (snd (remove j w)) = Map_delete j (products w))"
  by (simp add: create_eq update_eq remove_eq emit_snd Let_def)

theorem delivery_failure_reaches_caller_witness:
  "\<not> broker (stocked (\<lambda>n. n = 0)) (length (sent (stocked (\<lambda>n. n = 0)))) \<and>
   Map_get (products (stocked (\<lambda>n. n = 0))) ''id'' =
     Some \<lparr>id' = ''id'', name = ''Laptop'', description = ''Gaming laptop'',
           price = Number 99999 (- 2), createdAt = 0, updatedAt = 0\<rparr> \<and>
   fst (create laptop (stocked (\<lambda>n. n = 0))) = Inl DeliveryFailed \<and>
   fst (update ''id'' cheaper (stocked (\<lambda>n. n = 0))) = Inl DeliveryFailed \<and>
   fst (remove ''id'' (stocked (\<lambda>n. n = 0))) = Inl DeliveryFailed \<and>
   products (snd (remove ''id'' (stocked (\<lambda>n. n = 0)))) = []"
proof -
  let ?w = "stocked (\<lambda>n. n = 0)"
  let ?p = "\<lparr>id' = ''id'', name = ''Laptop'', description = ''Gaming laptop'',
           price = Number 99999 (- 2), createdAt = 0, updatedAt = 0\<rparr>"
  have down: "\<not> broker ?w (length (sent ?w))" by (simp add: stocked_eq)
  have there: "Map_get (products ?w) ''id'' = Some ?p" by (simp add: stocked_eq Map_get_def)
  have gone: "Map_delete ''id'' (products ?w) = []" by (simp add: stocked_eq Map_delete_def)
  from delivery_failure_reaches_caller [OF down, of laptop "''id''" ?p cheaper "''id''" ?p] there gone
  show ?thesis using down by simp
qed


section \<open>One publish after each mutation\<close>

text \<open>
  C2: every create, update or remove that changes the store makes exactly one publish
  attempt, and makes it after the write to the mapping: the journal of the calls grows by
  the write (\<open>set\<close>, or \<open>delete\<close> for a remove) followed by one \<open>producer.send\<close>, the list of
  attempts grows by that one record, and the mapping the method leaves holds the mutation.
  The one message of the record is keyed by the event type and its value is the text of
  the envelope around the entity as the mutation left it (for remove, the entity as it was
  just before). Read back, that text is the object whose payload has the id, the name, the
  description and the price of that entity, and its two dates as ISO-8601 strings.
\<close>

theorem one_publish_after_each_mutation:
  "(let p = \<lparr>id' = uuids w (uuid_calls w), name = c_name dto, description = c_description dto,
              price = c_price dto, createdAt = clock w (ticks w), updatedAt = clock w (ticks w)\<rparr>;
        r = \<lparr>topic = TOPIC w, messages = [\<lparr>msg_key = ''product.created'',
              msg_value = Some (envelope_text ''product.created'' (product_text p)
                                  (clock w (Suc (ticks w))))\<rparr>]\<rparr>
    in journal (snd (create dto w)) = journal w @ [SetCall (id' p) p, SendCall r] \<and>
       sent (snd (create dto w)) = sent w @ [r] \<and>
       Map_get (products (snd (create dto w))) (id' p) = Some p) \<and>
   (Map_get (products w) i = Some existing \<longrightarrow>
    (let updated = existing
           \<lparr>name := (case u_name udto of None \<Rightarrow> name existing | Some n \<Rightarrow> n),
            description := (case u_description udto of None \<Rightarrow> description existing | Some d \<Rightarrow> d),
            price := (case u_price udto of None \<Rightarrow> price existing | Some x \<Rightarrow> x),
            updatedAt := clock w (ticks w)\<rparr>;
         r = \<lparr>topic = TOPIC w, messages = [\<lparr>msg_key = ''product.updated'',
               msg_value = Some (envelope_text ''product.updated'' (product_text updated)
                                   (clock w (Suc (ticks w))))\<rparr>]\<rparr>
     in journal (snd (update i udto w)) = journal w @ [SetCall i updated, SendCall r] \<and>
        sent (snd (update i udto w)) = sent w @ [r] \<and>
        Map_get (products (snd (update i udto w))) i = Some updated)) \<and>
   (Map_get (products w) j = Some gone \<longrightarrow>
    (let r = \<lparr>topic = TOPIC w, messages = [\<lparr>msg_key = ''product.deleted'',
               msg_value = Some (envelope_text ''product.deleted'' (product_text gone)
                                   (clock w (ticks w)))\<rparr>]\<rparr>
     in journal (snd (remove j w)) = journal w @ [DeleteCall j, SendCall r] \<and>
        sent (snd (remove j w)) = sent w @ [r] \<and>
        Map_get (products (snd (remove j w))) j = None)) \<and>
   JSON_parse (envelope_text t (product_text q) now) =
     Some (JObj [(''type'', JStr t),
                 (''payload'',
                  JObj [(''id'', JStr (id' q)), (''name'', JStr (name q)),
                        (''description'', JStr (description q)),
                        (''price'', JNum (normal (price q))),
                        (''createdAt'', JStr (toISOString (createdAt q))),
                        (''updatedAt'', JStr (toISOString (updatedAt q)))]),
                 (''timestamp'', JStr (toISOString now))])"
proof -
  have c: "TOPIC (w\<lparr>ticks := a, uuid_calls := b, products := m, journal := l\<rparr>) = TOPIC w"
    for a b m l
    by (simp add: TOPIC_def)
  have u: "TOPIC (w\<lparr>ticks := a, products := m, journal := l\<rparr>) = TOPIC w" for a m l
    by (simp add: TOPIC_def)
  have r: "TOPIC (w\<lparr>products := m, journal := l\<rparr>) = TOPIC w" for m l
    by (simp add: TOPIC_def)
  have s: "JSON_stringify (envelope ty (product_val x) at) =
           Some (envelope_text ty (product_text x) at)" for ty x at
    by (rule ser_envelope [OF ser_product])
  have names: "PRODUCT_CREATED = ''product.created''" "PRODUCT_UPDATED = ''product.updated''"
    "PRODUCT_DELETED = ''product.deleted''"
    by (simp_all add: PRODUCT_CREATED_def PRODUCT_UPDATED_def PRODUCT_DELETED_def)
  have created: "(let p = \<lparr>id' = uuids w (uuid_calls w), name = c_name dto, description = c_description dto,
              price = c_price dto, createdAt = clock w (ticks w), updatedAt = clock w (ticks w)\<rparr>;
        r = \<lparr>topic = TOPIC w, messages = [\<lparr>msg_key = ''product.created'',
              msg_value = Some (envelope_text ''product.created'' (product_text p)
                                  (clock w (Suc (ticks w))))\<rparr>]\<rparr>
    in journal (snd (create dto w)) = journal w @ [SetCall (id' p) p, SendCall r] \<and>
       sent (snd (create dto w)) = sent w @ [r] \<and>
       Map_get (products (snd (create dto w))) (id' p) = Some p)"
    by (simp add: create_eq emit_snd Let_def Map_get_set c s names [symmetric])
  have updated: "(let updated = existing
           \<lparr>name := (case u_name udto of None \<Rightarrow> name existing | Some n \<Rightarrow> n),
            description := (case u_description udto of None \<Rightarrow> description existing | Some d \<Rightarrow> d),
            price := (case u_price udto of None \<Rightarrow> price existing | Some x \<Rightarrow> x),
            updatedAt := clock w (ticks w)\<rparr>;
         r = \<lparr>topic = TOPIC w, messages = [\<lparr>msg_key = ''product.updated'',
               msg_value = Some (envelope_text ''product.updated'' (product_text updated)
                                   (clock w (Suc (ticks w))))\<rparr>]\<rparr>
     in journal (snd (update i udto w)) = journal w @ [SetCall i updated, SendCall r] \<and>
        sent (snd (update i udto w)) = sent w @ [r] \<and>
        Map_get (products (snd (update i udto w))) i = Some updated)"
    if "Map_get (products w) i = Some existing"
    using that by (simp add: update_eq emit_snd Let_def Map_get_set u s names [symmetric])
  have removed: "(let r = \<lparr>topic = TOPIC w, messages = [\<lparr>msg_key = ''product.deleted'',
               msg_value = Some (envelope_text ''product.deleted'' (product_text gone)
                                   (clock w (ticks w)))\<rparr>]\<rparr>
     in journal (snd (remove j w)) = journal w @ [DeleteCall j, SendCall r] \<and>
        sent (snd (remove j w)) = sent w @ [r] \<and>
        Map_get (products (snd (remove j w))) j = None)"
    if "Map_get (products w) j = Some gone"
    using that by (simp add: remove_eq emit_snd Let_def Map_get_delete r s names [symmetric])
  have parsed: "JSON_parse (envelope_text t (product_text q) now) =
     Some (JObj [(''type'', JStr t),
                 (''payload'',
                  JObj [(''id'', JStr (id' q)), (''name'', JStr (name q)),
                        (''description'', JStr (description q)),
                        (''price'', JNum (normal (price q))),
                        (''createdAt'', JStr (toISOString (createdAt q))),
                        (''updatedAt'', JStr (toISOString (updatedAt q)))]),
                 (''timestamp'', JStr (toISOString now))])"
    by (simp add: JSON_parse_envelope product_json_def)
  from created updated removed parsed show ?thesis by blast
qed

theorem one_publish_after_each_mutation_witness:
  "Map_get (products (stocked (\<lambda>n. True))) ''id'' =
     Some \<lparr>id' = ''id'', name = ''Laptop'', description = ''Gaming laptop'',
           price = Number 99999 (- 2), createdAt = 0, updatedAt = 0\<rparr> \<and>
   journal (snd (create laptop (stocked (\<lambda>n. True)))) =
     journal (stocked (\<lambda>n. True)) @
     [SetCall ''id+'' \<lparr>id' = ''id+'', name = ''Laptop'', description = ''Gaming laptop'',
                       price = Number 99999 (- 2), createdAt = 2000, updatedAt = 2000\<rparr>,
      SendCall \<lparr>topic = ''product-events'', messages = [\<lparr>msg_key = ''product.created'',
        msg_value = Some ''{\"type\":\"product.created\",\"payload\":{\"id\":\"id+\",\"name\":\"Laptop\",\"description\":\"Gaming laptop\",\"price\":999.99,\"createdAt\":\"1970-01-01T00:00:02.000Z\",\"updatedAt\":\"1970-01-01T00:00:02.000Z\"},\"timestamp\":\"1970-01-01T00:00:03.000Z\"}''\<rparr>]\<rparr>] \<and>
   journal (snd (update ''id'' cheaper (stocked (\<lambda>n. True)))) =
     journal (stocked (\<lambda>n. True)) @
     [SetCall ''id'' \<lparr>id' = ''id'', name = ''Laptop'', description = ''Gaming laptop'',
                      price = Number 89999 (- 2), createdAt = 0, updatedAt = 2000\<rparr>,
      SendCall \<lparr>topic = ''product-events'', messages = [\<lparr>msg_key = ''product.updated'',
        msg_value = Some ''{\"type\":\"product.updated\",\"payload\":{\"id\":\"id\",\"name\":\"Laptop\",\"description\":\"Gaming laptop\",\"price\":899.99,\"createdAt\":\"1970-01-01T00:00:00.000Z\",\"updatedAt\":\"1970-01-01T00:00:02.000Z\"},\"timestamp\":\"1970-01-01T00:00:03.000Z\"}''\<rparr>]\<rparr>] \<and>
   sent (snd (update ''id'' cheaper (stocked (\<lambda>n. True)))) =
     sent (stocked (\<lambda>n. True)) @
     [\<lparr>topic = ''product-events'', messages = [\<lparr>msg_key = ''product.updated'',
        msg_value = Some ''{\"type\":\"product.updated\",\"payload\":{\"id\":\"id\",\"name\":\"Laptop\",\"description\":\"Gaming laptop\",\"price\":899.99,\"createdAt\":\"1970-01-01T00:00:00.000Z\",\"updatedAt\":\"1970-01-01T00:00:02.000Z\"},\"timestamp\":\"1970-01-01T00:00:03.000Z\"}''\<rparr>]\<rparr>] \<and>
   journal (snd (remove ''id'' (stocked (\<lambda>n. True)))) =
     journal (stocked (\<lambda>n. True)) @
     [DeleteCall ''id'',
      SendCall \<lparr>topic = ''product-events'', messages = [\<lparr>msg_key = ''product.deleted'',
        msg_value = Some ''{\"type\":\"product.deleted\",\"payload\":{\"id\":\"id\",\"name\":\"Laptop\",\"description\":\"Gaming laptop\",\"price\":999.99,\"createdAt\":\"1970-01-01T00:00:00.000Z\",\"updatedAt\":\"1970-01-01T00:00:00.000Z\"},\"timestamp\":\"1970-01-01T00:00:02.000Z\"}''\<rparr>]\<rparr>] \<and>
   Map_get (products (snd (remove ''id'' (stocked (\<lambda>n. True))))) ''id'' = None \<and>
   JSON_parse ''{\"type\":\"product.created\",\"payload\":{\"id\":\"id+\",\"name\":\"Laptop\",\"description\":\"Gaming laptop\",\"price\":999.99,\"createdAt\":\"1970-01-01T00:00:02.000Z\",\"updatedAt\":\"1970-01-01T00:00:02.000Z\"},\"timestamp\":\"1970-01-01T00:00:03.000Z\"}'' =
     Some (JObj [(''type'', JStr ''product.created''),
                 (''payload'',
                  JObj [(''id'', JStr ''id+''), (''name'', JStr ''Laptop''),
                        (''description'', JStr ''Gaming laptop''),
                        (''price'', JNum (Number 99999 (- 2))),
                        (''createdAt'', JStr ''1970-01-01T00:00:02.000Z''),
                        (''updatedAt'', JStr ''1970-01-01T00:00:02.000Z'')]),
                 (''timestamp'', JStr ''1970-01-01T00:00:03.000Z'')])"
proof -
  let ?w = "stocked (\<lambda>n. True)"
  let ?p = "\<lparr>id' = ''id'', name = ''Laptop'', description = ''Gaming laptop'',
           price = Number 99999 (- 2), createdAt = 0, updatedAt = 0\<rparr>"
  let ?n = "\<lparr>id' = ''id+'', name = ''Laptop'', description = ''Gaming laptop'',
           price = Number 99999 (- 2), createdAt = 2000, updatedAt = 2000\<rparr>"
  let ?u = "\<lparr>id' = ''id'', name = ''Laptop'', description = ''Gaming laptop'',
           price = Number 89999 (- 2), createdAt = 0, updatedAt = 2000\<rparr>"
  have there: "Map_get (products ?w) ''id'' = Some ?p"
    by (simp add: stocked_eq Map_get_def)
  have env: "clock ?w (ticks ?w) = 2000" "clock ?w (Suc (ticks ?w)) = 3000"
    "TOPIC ?w = ''product-events''" "uuids ?w (uuid_calls ?w) = ''id+''"
    by (simp_all add: stocked_eq TOPIC_def)
  have created: "envelope_text ''product.created'' (product_text ?n) 3000 =
    ''{\"type\":\"product.created\",\"payload\":{\"id\":\"id+\",\"name\":\"Laptop\",\"description\":\"Gaming laptop\",\"price\":999.99,\"createdAt\":\"1970-01-01T00:00:02.000Z\",\"updatedAt\":\"1970-01-01T00:00:02.000Z\"},\"timestamp\":\"1970-01-01T00:00:03.000Z\"}''"
    by code_simp
  have updated: "envelope_text ''product.updated'' (product_text ?u) 3000 =
    ''{\"type\":\"product.updated\",\"payload\":{\"id\":\"id\",\"name\":\"Laptop\",\"description\":\"Gaming laptop\",\"price\":899.99,\"createdAt\":\"1970-01-01T00:00:00.000Z\",\"updatedAt\":\"1970-01-01T00:00:02.000Z\"},\"timestamp\":\"1970-01-01T00:00:03.000Z\"}''"
    by code_simp
  have deleted: "envelope_text ''product.deleted'' (product_text ?p) 2000 =
    ''{\"type\":\"product.deleted\",\"payload\":{\"id\":\"id\",\"name\":\"Laptop\",\"description\":\"Gaming laptop\",\"price\":999.99,\"createdAt\":\"1970-01-01T00:00:00.000Z\",\"updatedAt\":\"1970-01-01T00:00:00.000Z\"},\"timestamp\":\"1970-01-01T00:00:02.000Z\"}''"
    by code_simp
  note all = one_publish_after_each_mutation [where w = ?w and dto = laptop and i = "''id''"
      and existing = ?p and udto = cheaper and j = "''id''" and gone = ?p
      and t = "''product.created''" and q = ?n and now = 3000]
  note new = all [THEN conjunct1, unfolded Let_def]
  note upd = all [THEN conjunct2, THEN conjunct1, rule_format, OF there, unfolded Let_def]
  note del = all [THEN conjunct2, THEN conjunct2, THEN conjunct1, rule_format, OF there,
      unfolded Let_def]
  from new have a: "journal (snd (create laptop ?w)) =
     journal ?w @
     [SetCall ''id+'' ?n,
      SendCall \<lparr>topic = ''product-events'', messages = [\<lparr>msg_key = ''product.created'',
        msg_value = Some (envelope_text ''product.created'' (product_text ?n) 3000)\<rparr>]\<rparr>]"
    by (simp add: env laptop_def)
  from upd have b: "journal (snd (update ''id'' cheaper ?w)) =
     journal ?w @
     [SetCall ''id'' ?u,
      SendCall \<lparr>topic = ''product-events'', messages = [\<lparr>msg_key = ''product.updated'',
        msg_value = Some (envelope_text ''product.updated'' (product_text ?u) 3000)\<rparr>]\<rparr>]"
    and c: "sent (snd (update ''id'' cheaper ?w)) =
     sent ?w @
     [\<lparr>topic = ''product-events'', messages = [\<lparr>msg_key = ''product.updated'',
        msg_value = Some (envelope_text ''product.updated'' (product_text ?u) 3000)\<rparr>]\<rparr>]"
    by (simp_all add: env cheaper_def)
  from del have d: "journal (snd (remove ''id'' ?w)) =
     journal ?w @
     [DeleteCall ''id'',
      SendCall \<lparr>topic = ''product-events'', messages = [\<lparr>msg_key = ''product.deleted'',
        msg_value = Some (envelope_text ''product.deleted'' (product_text ?p) 2000)\<rparr>]\<rparr>]"
    and e: "Map_get (products (snd (remove ''id'' ?w))) ''id'' = None"
    by (simp_all add: env)
  have dates: "toISOString 2000 = ''1970-01-01T00:00:02.000Z''"
    "toISOString 3000 = ''1970-01-01T00:00:03.000Z''"
    by code_simp+
  have n: "normal (Number 99999 (- 2)) = Number 99999 (- 2)"
    by (simp add: normal_def make_number_def strip_zeros_fix)
  from all [THEN conjunct2, THEN conjunct2, THEN conjunct2]
  have f: "JSON_parse (envelope_text ''product.created'' (product_text ?n) 3000) =
     Some (JObj [(''type'', JStr ''product.created''),
                 (''payload'',
                  JObj [(''id'', JStr ''id+''), (''name'', JStr ''Laptop''),
                        (''description'', JStr ''Gaming laptop''),
                        (''price'', JNum (Number 99999 (- 2))),
                        (''createdAt'', JStr ''1970-01-01T00:00:02.000Z''),
                        (''updatedAt'', JStr ''1970-01-01T00:00:02.000Z'')]),
                 (''timestamp'', JStr ''1970-01-01T00:00:03.000Z'')])"
    by (simp add: dates n)
  show ?thesis
    unfolding created [symmetric] updated [symmetric] deleted [symmetric]
    using there a b c d e f by simp
qed

section \<open>The list of products\<close>

text \<open>
  C3: after every finite sequence of create, update and remove requests that starts from
  the empty store, \<open>findAll\<close> (the spec's \<open>list()\<close>) returns one product per id, and a
  product with id \<open>i\<close> and fields \<open>n\<close>, \<open>d\<close>, \<open>x\<close> is in the list exactly when the history
  says so: \<open>i\<close> was created and not removed since, and \<open>n\<close>, \<open>d\<close>, \<open>x\<close> are the latest values
  of its name, description and price. (The two dates of a product are the subject of C4
  and C9.)
\<close>

theorem findAll_lists_the_live_entities:
  assumes "products w = []"
  shows "fst (findAll (run rs w)) = Inr (Map_values (products (run rs w))) \<and>
         distinct (map id' (Map_values (products (run rs w)))) \<and>
         ((\<exists>p \<in> set (Map_values (products (run rs w))).
              id' p = i \<and> name p = n \<and> description p = d \<and> price p = x) \<longleftrightarrow>
          spec_listed (history rs (uuids w) (uuid_calls w)) i n d x)"
proof -
  let ?m = "products (run rs w)"
  let ?es = "history rs (uuids w) (uuid_calls w)"
  from assms have dist: "distinct (map fst ?m)"
    using keys_distinct_run [of w rs] by simp
  have entry: "id' p = k \<and> spec_alive k ?es \<and> latest_name k (rev ?es) = Some (name p) \<and>
      latest_description k (rev ?es) = Some (description p) \<and>
      latest_price k (rev ?es) = Some (price p)" if "(k, p) \<in> set ?m" for k p
  proof -
    from that dist have "Map_get ?m k = Some p" by (simp add: Map_get_def)
    with store_refines_history [OF assms, where i = k and rs = rs] show ?thesis by simp
  qed
  have ids: "map id' (Map_values ?m) = map fst ?m"
    unfolding Map_values_def using entry by (induction ?m) auto
  have "(\<exists>p \<in> set (Map_values ?m). id' p = i \<and> name p = n \<and> description p = d \<and> price p = x)
        \<longleftrightarrow> spec_listed ?es i n d x"
  proof
    assume "\<exists>p \<in> set (Map_values ?m). id' p = i \<and> name p = n \<and> description p = d \<and> price p = x"
    then obtain k p where "(k, p) \<in> set ?m" "id' p = i" "name p = n" "description p = d" "price p = x"
      by (auto simp add: Map_values_def)
    with entry [of k p] show "spec_listed ?es i n d x" by (auto simp add: spec_listed_def)
  next
    assume listed: "spec_listed ?es i n d x"
    with store_refines_history [OF assms, where i = i and rs = rs]
    obtain p where p: "Map_get ?m i = Some p" "id' p = i" "name p = n" "description p = d" "price p = x"
      by (auto simp add: spec_listed_def split: option.splits)
    then have "(i, p) \<in> set ?m" by (auto simp add: Map_get_def dest: map_of_SomeD)
    then have "p \<in> set (Map_values ?m)" by (force simp add: Map_values_def)
    with p show "\<exists>p \<in> set (Map_values ?m). id' p = i \<and> name p = n \<and> description p = d \<and> price p = x"
      by blast
  qed
  with dist ids show ?thesis by (simp add: findAll_def)
qed

theorem findAll_lists_the_live_entities_witness:
  "products (demo (\<lambda>n. True)) = [] \<and>
   history [Create laptop, Update ''id'' cheaper, Create laptop, Remove ''id+'']
     (uuids (demo (\<lambda>n. True))) (uuid_calls (demo (\<lambda>n. True))) =
     [Created ''id'' laptop, Updated ''id'' cheaper, Created ''id+'' laptop, Removed ''id+''] \<and>
   spec_listed [Created ''id'' laptop, Updated ''id'' cheaper, Created ''id+'' laptop, Removed ''id+'']
     ''id'' ''Laptop'' ''Gaming laptop'' (Number 89999 (- 2)) \<and>
   (\<exists>p \<in> set (Map_values (products
        (run [Create laptop, Update ''id'' cheaper, Create laptop, Remove ''id+''] (demo (\<lambda>n. True))))).
      id' p = ''id'' \<and> name p = ''Laptop'' \<and> description p = ''Gaming laptop'' \<and>
      price p = Number 89999 (- 2)) \<and>
   \<not> spec_listed [Created ''id'' laptop, Updated ''id'' cheaper, Created ''id+'' laptop, Removed ''id+'']
     ''id+'' ''Laptop'' ''Gaming laptop'' (Number 99999 (- 2)) \<and>
   \<not> (\<exists>p \<in> set (Map_values (products
        (run [Create laptop, Update ''id'' cheaper, Create laptop, Remove ''id+''] (demo (\<lambda>n. True))))).
      id' p = ''id+'' \<and> name p = ''Laptop'' \<and> description p = ''Gaming laptop'' \<and>
      price p = Number 99999 (- 2))"
proof -
  let ?w = "demo (\<lambda>n. True)"
  let ?rs = "[Create laptop, Update ''id'' cheaper, Create laptop, Remove ''id+'']"
  let ?es = "[Created ''id'' laptop, Updated ''id'' cheaper, Created ''id+'' laptop, Removed ''id+'']"
  have empty: "products ?w = []" by (simp add: demo_def boot_def)
  have hist: "history ?rs (uuids ?w) (uuid_calls ?w) = ?es"
    by (simp add: demo_def boot_def)
  have yes: "spec_listed ?es ''id'' ''Laptop'' ''Gaming laptop'' (Number 89999 (- 2))"
    by (simp add: spec_listed_def laptop_def cheaper_def)
  have no: "\<not> spec_listed ?es ''id+'' ''Laptop'' ''Gaming laptop'' (Number 99999 (- 2))"
    by (simp add: spec_listed_def)
  from findAll_lists_the_live_entities
         [OF empty, of ?rs "''id''" "''Laptop''" "''Gaming laptop''" "Number 89999 (- 2)"]
       findAll_lists_the_live_entities
         [OF empty, of ?rs "''id+''" "''Laptop''" "''Gaming laptop''" "Number 99999 (- 2)"]
       empty hist yes no
  show ?thesis by simp
qed

section \<open>Partial update\<close>

text \<open>
  C4, as stated: for a present id, \<open>update\<close> applies the given fields, stores the result
  and returns the updated entity. The last part fails when the publish fails: the entity
  is stored, and the caller gets the rejection of the publish instead of the entity.
\<close>

theorem update_rejects_when_publish_fails:
  "Map_get (products (stocked (\<lambda>n. n = 0))) ''id'' =
     Some \<lparr>id' = ''id'', name = ''Laptop'', description = ''Gaming laptop'',
           price = Number 99999 (- 2), createdAt = 0, updatedAt = 0\<rparr> \<and>
   fst (update ''id'' cheaper (stocked (\<lambda>n. n = 0))) = Inl DeliveryFailed \<and>
   Map_get (products (snd (update ''id'' cheaper (stocked (\<lambda>n. n = 0))))) ''id'' =
     Some \<lparr>id' = ''id'', name = ''Laptop'', description = ''Gaming laptop'',
           price = Number 89999 (- 2), createdAt = 0, updatedAt = 2000\<rparr>"
proof -
  let ?w = "stocked (\<lambda>n. n = 0)"
  let ?p = "\<lparr>id' = ''id'', name = ''Laptop'', description = ''Gaming laptop'',
           price = Number 99999 (- 2), createdAt = 0, updatedAt = 0\<rparr>"
  have there: "Map_get (products ?w) ''id'' = Some ?p"
    by (simp add: stocked_eq Map_get_def)
  show ?thesis
    unfolding update_eq [OF there] using there
    by (simp add: Let_def emit_snd Map_get_set cheaper_def) (simp add: stocked_eq)
qed

text \<open>
  C4, amended: for a present id, \<open>update\<close> replaces the stored entity by one that carries
  exactly the fields given in the DTO, keeps every omitted field, the id and \<open>createdAt\<close>,
  and has \<open>updatedAt\<close> set to the current clock reading; no other entry changes; the call
  returns that entity when the publish succeeds and rejects with \<open>DeliveryFailed\<close> when it
  fails. For an absent id the call rejects with \<open>NotFound\<close>.
\<close>

theorem update_applies_present_fields:
  "(Map_get (products w) i = Some existing \<longrightarrow>
    (\<exists>q. Map_get (products (snd (update i dto w))) i = Some q \<and>
         (\<forall>k. k \<noteq> i \<longrightarrow> Map_get (products (snd (update i dto w))) k = Map_get (products w) k) \<and>
         fst (update i dto w) = (if broker w (length (sent w)) then Inr q else Inl DeliveryFailed) \<and>
         name q = (case u_name dto of None \<Rightarrow> name existing | Some n \<Rightarrow> n) \<and>
         description q = (case u_description dto of None \<Rightarrow> description existing | Some d \<Rightarrow> d) \<and>
         price q = (case u_price dto of None \<Rightarrow> price existing | Some x \<Rightarrow> x) \<and>
         id' q = id' existing \<and> createdAt q = createdAt existing \<and>
         updatedAt q = clock w (ticks w))) \<and>
   (Map_get (products w) i = None \<longrightarrow>
    fst (update i dto w) = Inl (NotFoundException (''Product '' @ i @ '' not found'')))"
  by (simp add: update_eq update_absent emit_snd Map_get_set Let_def)

theorem update_applies_present_fields_witness:
  "Map_get (products (stocked (\<lambda>n. True))) ''id'' =
     Some \<lparr>id' = ''id'', name = ''Laptop'', description = ''Gaming laptop'',
           price = Number 99999 (- 2), createdAt = 0, updatedAt = 0\<rparr> \<and>
   fst (update ''id'' cheaper (stocked (\<lambda>n. True))) =
     Inr \<lparr>id' = ''id'', name = ''Laptop'', description = ''Gaming laptop'',
          price = Number 89999 (- 2), createdAt = 0, updatedAt = 2000\<rparr> \<and>
   Map_get (products (stocked (\<lambda>n. True))) ''missing'' = None \<and>
   fst (update ''missing'' cheaper (stocked (\<lambda>n. True))) =
     Inl (NotFoundException ''Product missing not found'')"
proof -
  let ?w = "stocked (\<lambda>n. True)"
  let ?p = "\<lparr>id' = ''id'', name = ''Laptop'', description = ''Gaming laptop'',
           price = Number 99999 (- 2), createdAt = 0, updatedAt = 0\<rparr>"
  have there: "Map_get (products ?w) ''id'' = Some ?p"
    by (simp add: stocked_eq Map_get_def)
  have absent: "Map_get (products ?w) ''missing'' = None"
    by (simp add: stocked_eq Map_get_def)
  have env: "clock ?w (ticks ?w) = 2000" "broker ?w (length (sent ?w))"
    by (simp_all add: stocked_eq)
  from update_applies_present_fields [of ?w "''id''" ?p cheaper] there env
  obtain q where q: "fst (update ''id'' cheaper ?w) = Inr q" "name q = ''Laptop''"
    "description q = ''Gaming laptop''" "price q = Number 89999 (- 2)" "id' q = ''id''"
    "createdAt q = 0" "updatedAt q = 2000"
    by (auto simp add: cheaper_def)
  then have "q = \<lparr>id' = ''id'', name = ''Laptop'', description = ''Gaming laptop'',
          price = Number 89999 (- 2), createdAt = 0, updatedAt = 2000\<rparr>"
    by (cases q) simp
  moreover from update_applies_present_fields [of ?w "''missing''" ?p cheaper] absent
  have "fst (update ''missing'' cheaper ?w) = Inl (NotFoundException ''Product missing not found'')"
    by simp
  ultimately show ?thesis using there absent q by simp
qed

section \<open>From publish to consume\<close>

text \<open>
  C5, as stated: serialising the envelope of an entity snapshot as \<open>emit\<close> does and parsing
  the text as the consumer does gives a payload deep-equal to the snapshot. The snapshot
  holds two \<open>Date\<close> objects, which \<open>JSON.stringify\<close> writes as strings and \<open>JSON.parse\<close>
  (called without a reviver) returns as strings: the parsed payload differs from the
  snapshot in \<open>createdAt\<close> and \<open>updatedAt\<close>.
\<close>

theorem round_trip_turns_dates_into_strings:
  "\<exists>s ev.
     JSON_stringify (envelope PRODUCT_CREATED
       (product_val \<lparr>id' = ''id'', name = ''Laptop'', description = ''Gaming laptop'',
                      price = Number 99999 (- 2), createdAt = 0, updatedAt = 0\<rparr>) 1000) = Some s \<and>
     JSON_parse s = Some ev \<and>
     get_prop ev ''payload'' =
       Inr (JObj [(''id'', JStr ''id''), (''name'', JStr ''Laptop''),
                  (''description'', JStr ''Gaming laptop''), (''price'', JNum (Number 99999 (- 2))),
                  (''createdAt'', JStr ''1970-01-01T00:00:00.000Z''),
                  (''updatedAt'', JStr ''1970-01-01T00:00:00.000Z'')]) \<and>
     get_prop ev ''payload'' \<noteq>
       Inr (product_val \<lparr>id' = ''id'', name = ''Laptop'', description = ''Gaming laptop'',
                          price = Number 99999 (- 2), createdAt = 0, updatedAt = 0\<rparr>)"
proof -
  let ?p = "\<lparr>id' = ''id'', name = ''Laptop'', description = ''Gaming laptop'',
            price = Number 99999 (- 2), createdAt = 0, updatedAt = 0\<rparr>"
  let ?ev = "JObj [(''type'', JStr PRODUCT_CREATED), (''payload'', product_json ?p),
                   (''timestamp'', JStr (toISOString 1000))]"
  have n: "normal (Number 99999 (- 2)) = Number 99999 (- 2)"
    by (simp add: normal_def make_number_def strip_zeros_fix)
  have a: "JSON_stringify (envelope PRODUCT_CREATED (product_val ?p) 1000) =
           Some (envelope_text PRODUCT_CREATED (product_text ?p) 1000)"
    by (rule ser_envelope [OF ser_product])
  have b: "JSON_parse (envelope_text PRODUCT_CREATED (product_text ?p) 1000) = Some ?ev"
    by (rule JSON_parse_envelope)
  have c: "get_prop ?ev ''payload'' =
       Inr (JObj [(''id'', JStr ''id''), (''name'', JStr ''Laptop''),
                  (''description'', JStr ''Gaming laptop''), (''price'', JNum (Number 99999 (- 2))),
                  (''createdAt'', JStr ''1970-01-01T00:00:00.000Z''),
                  (''updatedAt'', JStr ''1970-01-01T00:00:00.000Z'')])"
    by (simp add: get_prop_def product_json_def n toISOString_epoch)
  have d: "get_prop ?ev ''payload'' \<noteq> Inr (product_val ?p)"
    by (simp add: get_prop_def product_json_def product_val_def)
  from a b c d show ?thesis by blast
qed

text \<open>
  C5, amended: for every product, event type and world, the text \<open>emit\<close> sends parses, and
  the payload of the parsed envelope is the JSON form of the snapshot: id, name and
  description as they were, the price as the same number (\<open>normal\<close> keeps the value,
  \<open>normal_same_value\<close>), and \<open>createdAt\<close> and \<open>updatedAt\<close> as the ISO-8601 strings of the
  snapshot's dates.
\<close>

theorem envelope_round_trip:
  "\<exists>s. sent (snd (emit t (product_val p) w)) =
          sent w @ [\<lparr>topic = TOPIC w, messages = [\<lparr>msg_key = t, msg_value = Some s\<rparr>]\<rparr>] \<and>
        JSON_parse s =
          Some (JObj [(''type'', JStr t), (''payload'', product_json p),
                      (''timestamp'', JStr (toISOString (clock w (ticks w))))]) \<and>
        get_prop (JObj [(''type'', JStr t), (''payload'', product_json p),
                        (''timestamp'', JStr (toISOString (clock w (ticks w))))]) ''payload'' =
          Inr (JObj [(''id'', JStr (id' p)), (''name'', JStr (name p)),
                     (''description'', JStr (description p)),
                     (''price'', JNum (normal (price p))),
                     (''createdAt'', JStr (toISOString (createdAt p))),
                     (''updatedAt'', JStr (toISOString (updatedAt p)))])"
proof -
  let ?s = "envelope_text t (product_text p) (clock w (ticks w))"
  have "JSON_stringify (envelope t (product_val p) (clock w (ticks w))) = Some ?s"
    by (rule ser_envelope [OF ser_product])
  then have "sent (snd (emit t (product_val p) w)) =
      sent w @ [\<lparr>topic = TOPIC w, messages = [\<lparr>msg_key = t, msg_value = Some ?s\<rparr>]\<rparr>]"
    by (simp add: emit_snd)
  moreover note JSON_parse_envelope [of t p "clock w (ticks w)"]
  moreover have "get_prop (JObj [(''type'', JStr t), (''payload'', product_json p),
                        (''timestamp'', JStr (toISOString (clock w (ticks w))))]) ''payload'' =
          Inr (JObj [(''id'', JStr (id' p)), (''name'', JStr (name p)),
                     (''description'', JStr (description p)),
                     (''price'', JNum (normal (price p))),
                     (''createdAt'', JStr (toISOString (createdAt p))),
                     (''updatedAt'', JStr (toISOString (updatedAt p)))])"
    by (simp add: get_prop_def product_json_def)
  ultimately show ?thesis by blast
qed

section \<open>Messages the consumer cannot read\<close>

text \<open>
  C6, as stated: for every message whose bytes do not parse as the envelope, the consumer
  logs the failure and skips the message. A message with an empty value does not parse
  and is skipped with no log entry at all (\<open>if (!value) return\<close>); and the text \<open>{}\<close>,
  which is JSON but not an envelope, is not taken for a failure: it is logged as an event
  whose type, timestamp and payload are \<open>undefined\<close>.
\<close>

theorem empty_message_leaves_no_trace:
  "JSON_parse [] = None \<and>
   handleMessage \<lparr>payload_topic = ''product-events'', payload_partition = 0,
                   payload_message = \<lparr>msg_key = ''k'', msg_value = Some []\<rparr>\<rparr> [] = (Inr (), []) \<and>
   JSON_parse ''{}'' = Some (JObj []) \<and>
   handleMessage \<lparr>payload_topic = ''product-events'', payload_partition = 0,
                   payload_message = \<lparr>msg_key = ''k'', msg_value = Some ''{}''\<rparr>\<rparr> [] =
     (Inr (), [LogEvent ''product-events'' 0 JUndefined JUndefined, LogPayload None])"
proof -
  have a: "JSON_parse [] = None" by code_simp
  have b: "JSON_parse ''{}'' = Some (JObj [])" by code_simp
  have c: "JSON_stringify2 JUndefined = None" by (simp add: JSON_stringify2_def)
  show ?thesis
    by (simp add: a b c handleMessage_def try_block_def get_prop_def Let_def)
qed

text \<open>
  C6, amended: \<open>handleMessage\<close> never rejects, whatever the message, so the loop goes on
  and handles every message of the list, each as if it came alone. What is logged for
  one message depends on its value only:
  \<^item> nothing at all when the value is \<open>null\<close> or empty;
  \<^item> a failure, the \<open>SyntaxError\<close> of \<open>JSON.parse\<close>, when the value is not empty and is not
    JSON text;
  \<^item> a failure, a \<open>TypeError\<close>, when the value is the JSON text \<open>null\<close>, or an object whose
    \<open>type\<close> or \<open>timestamp\<close> cannot be converted to a string;
  \<^item> an event in every other case, whatever the shape of the value: for an object the
    values of its \<open>type\<close>, \<open>timestamp\<close> and \<open>payload\<close> (\<open>undefined\<close> where it has none), for
    a string, a number, a boolean or an array \<open>undefined\<close> for all three.

  No test is made that the value has the shape of an envelope. The envelope of a product
  as the service publishes it is logged with its type, its timestamp and its payload.
\<close>

theorem handleMessage_never_rejects:
  "fst (handleMessage p con) = Inr () \<and>
   consume ps con = (Inr (), con @ concat (map (\<lambda>m. snd (handleMessage m [])) ps)) \<and>
   (msg_value (payload_message p) = None \<or> msg_value (payload_message p) = Some [] \<longrightarrow>
      snd (handleMessage p con) = con) \<and>
   (msg_value (payload_message p) = Some body \<and> body \<noteq> [] \<longrightarrow>
      (JSON_parse body = None \<longrightarrow>
         snd (handleMessage p con) = con @ [LogFailure SyntaxError]) \<and>
      (JSON_parse body = Some JNull \<longrightarrow>
         snd (handleMessage p con) = con @ [LogFailure TypeError]) \<and>
      (JSON_parse body = Some (JObj kvs) \<longrightarrow>
         snd (handleMessage p con) =
           con @
           (let ty = (case map_of kvs ''type'' of None \<Rightarrow> JUndefined | Some x \<Rightarrow> x);
                ts = (case map_of kvs ''timestamp'' of None \<Rightarrow> JUndefined | Some x \<Rightarrow> x);
                pl = (case map_of kvs ''payload'' of None \<Rightarrow> JUndefined | Some x \<Rightarrow> x)
            in if to_string_throws ty \<or> to_string_throws ts then [LogFailure TypeError]
               else [LogEvent (payload_topic p) (payload_partition p) ty ts,
                     LogPayload (JSON_stringify2 pl)])) \<and>
      (JSON_parse body = Some v \<and> v \<noteq> JNull \<and> (\<forall>m. v \<noteq> JObj m) \<longrightarrow>
         snd (handleMessage p con) =
           con @ [LogEvent (payload_topic p) (payload_partition p) JUndefined JUndefined,
                  LogPayload None])) \<and>
   (msg_value (payload_message p) = JSON_stringify (envelope t (product_val q) now) \<longrightarrow>
      snd (handleMessage p con) =
        con @ [LogEvent (payload_topic p) (payload_partition p) (JStr t) (JStr (toISOString now)),
               LogPayload (JSON_stringify2
                 (JObj [(''id'', JStr (id' q)), (''name'', JStr (name q)),
                        (''description'', JStr (description q)),
                        (''price'', JNum (normal (price q))),
                        (''createdAt'', JStr (toISOString (createdAt q))),
                        (''updatedAt'', JStr (toISOString (updatedAt q)))]))])"
proof -
  have a: "fst (handleMessage p con) = Inr ()"
    using handleMessage_appends [of p con] by simp
  have b: "snd (handleMessage p con) = con"
    if "msg_value (payload_message p) = None \<or> msg_value (payload_message p) = Some []"
    using handleMessage_missing [OF that, of con] by simp
  have u: "JSON_stringify2 JUndefined = None" by (simp add: JSON_stringify2_def)
  have c1: "snd (handleMessage p con) = con @ [LogFailure SyntaxError]"
    if "msg_value (payload_message p) = Some body" "body \<noteq> []" "JSON_parse body = None"
    using handleMessage_parsed [OF that(1,2), of con] that(3) by simp
  have c2: "snd (handleMessage p con) = con @ [LogFailure TypeError]"
    if "msg_value (payload_message p) = Some body" "body \<noteq> []" "JSON_parse body = Some JNull"
    using handleMessage_parsed [OF that(1,2), of con] that(3) by simp
  have c3: "snd (handleMessage p con) =
           con @
           (let ty = (case map_of kvs ''type'' of None \<Rightarrow> JUndefined | Some x \<Rightarrow> x);
                ts = (case map_of kvs ''timestamp'' of None \<Rightarrow> JUndefined | Some x \<Rightarrow> x);
                pl = (case map_of kvs ''payload'' of None \<Rightarrow> JUndefined | Some x \<Rightarrow> x)
            in if to_string_throws ty \<or> to_string_throws ts then [LogFailure TypeError]
               else [LogEvent (payload_topic p) (payload_partition p) ty ts,
                     LogPayload (JSON_stringify2 pl)])"
    if "msg_value (payload_message p) = Some body" "body \<noteq> []" "JSON_parse body = Some (JObj kvs)"
    using handleMessage_parsed [OF that(1,2), of con] that(3) by simp
  have c4: "snd (handleMessage p con) =
           con @ [LogEvent (payload_topic p) (payload_partition p) JUndefined JUndefined,
                  LogPayload None]"
    if "msg_value (payload_message p) = Some body" "body \<noteq> []" "JSON_parse body = Some v"
       "v \<noteq> JNull" "\<forall>m. v \<noteq> JObj m"
  proof -
    from JSON_parse_kind [OF that(3)] have "v \<noteq> JUndefined" by simp
    with that(4,5) handleMessage_parsed [OF that(1,2), of con] that(3) u show ?thesis
      by (cases v) simp_all
  qed
  have d: "snd (handleMessage p con) =
        con @ [LogEvent (payload_topic p) (payload_partition p) (JStr t) (JStr (toISOString now)),
               LogPayload (JSON_stringify2
                 (JObj [(''id'', JStr (id' q)), (''name'', JStr (name q)),
                        (''description'', JStr (description q)),
                        (''price'', JNum (normal (price q))),
                        (''createdAt'', JStr (toISOString (createdAt q))),
                        (''updatedAt'', JStr (toISOString (updatedAt q)))]))]"
    if "msg_value (payload_message p) = JSON_stringify (envelope t (product_val q) now)"
    using handleMessage_envelope [OF that, of con] by (simp add: product_json_def)
  from a b c1 c2 c3 c4 d consume_all [of ps con] show ?thesis by blast
qed

theorem handleMessage_never_rejects_witness:
  "JSON_parse ''oops'' = None \<and>
   JSON_parse ''null'' = Some JNull \<and>
   JSON_parse ''{}'' = Some (JObj []) \<and>
   JSON_parse ''{\"type\":{\"toString\":1}}'' =
     Some (JObj [(''type'', JObj [(''toString'', JNum (Number 1 0))])]) \<and>
   JSON_parse ''[7]'' = Some (JArr [JNum (Number 7 0)]) \<and>
   consume
     [incoming None, incoming (Some []), incoming (Some ''oops''), incoming (Some ''null''),
      incoming (Some ''{}''), incoming (Some ''{\"type\":{\"toString\":1}}''),
      incoming (Some ''[7]''),
      incoming (JSON_stringify (envelope ''product.created''
        (product_val \<lparr>id' = ''id'', name = ''Laptop'', description = ''Gaming laptop'',
                       price = Number 99999 (- 2), createdAt = 0, updatedAt = 0\<rparr>) 1000))] [] =
     (Inr (),
      [LogFailure SyntaxError,
       LogFailure TypeError,
       LogEvent ''product-events'' 0 JUndefined JUndefined, LogPayload None,
       LogFailure TypeError,
       LogEvent ''product-events'' 0 JUndefined JUndefined, LogPayload None,
       LogEvent ''product-events'' 0 (JStr ''product.created'') (JStr ''1970-01-01T00:00:01.000Z''),
       LogPayload (JSON_stringify2
         (JObj [(''id'', JStr ''id''), (''name'', JStr ''Laptop''),
                (''description'', JStr ''Gaming laptop''),
                (''price'', JNum (Number 99999 (- 2))),
                (''createdAt'', JStr ''1970-01-01T00:00:00.000Z''),
                (''updatedAt'', JStr ''1970-01-01T00:00:00.000Z'')]))])"
proof -
  let ?q = "\<lparr>id' = ''id'', name = ''Laptop'', description = ''Gaming laptop'',
            price = Number 99999 (- 2), createdAt = 0, updatedAt = 0\<rparr>"
  let ?good = "incoming (JSON_stringify (envelope ''product.created'' (product_val ?q) 1000))"
  let ?all = "[incoming None, incoming (Some []), incoming (Some ''oops''), incoming (Some ''null''),
      incoming (Some ''{}''), incoming (Some ''{\"type\":{\"toString\":1}}''),
      incoming (Some ''[7]''), ?good]"
  have bad: "JSON_parse ''oops'' = None" by code_simp
  have nul: "JSON_parse ''null'' = Some JNull" by code_simp
  have obj: "JSON_parse ''{}'' = Some (JObj [])" by code_simp
  have str: "JSON_parse ''{\"type\":{\"toString\":1}}'' =
     Some (JObj [(''type'', JObj [(''toString'', JNum (Number 1 0))])])" by code_simp
  have arr: "JSON_parse ''[7]'' = Some (JArr [JNum (Number 7 0)])" by code_simp
  have date: "toISOString 1000 = ''1970-01-01T00:00:01.000Z''" by code_simp
  have u: "JSON_stringify2 JUndefined = None" by (simp add: JSON_stringify2_def)
  have n: "normal (Number 99999 (- 2)) = Number 99999 (- 2)"
    by (simp add: normal_def make_number_def strip_zeros_fix)
  note inst = handleMessage_never_rejects [where con = "[]" and ps = ?all
      and t = "''product.created''" and q = ?q and now = 1000]
  from inst [where p = "incoming None" and body = "[]" and kvs = "[]" and v = JNull]
  have m1: "snd (handleMessage (incoming None) []) = []"
    and all: "consume ?all [] = (Inr (), concat (map (\<lambda>m. snd (handleMessage m [])) ?all))"
    by (simp_all add: incoming_def)
  from inst [where p = "incoming (Some [])" and body = "[]" and kvs = "[]" and v = JNull]
  have m2: "snd (handleMessage (incoming (Some [])) []) = []"
    by (simp add: incoming_def)
  from inst [where p = "incoming (Some ''oops'')" and body = "''oops''" and kvs = "[]" and v = JNull] bad
  have m3: "snd (handleMessage (incoming (Some ''oops'')) []) = [LogFailure SyntaxError]"
    by (simp add: incoming_def)
  from inst [where p = "incoming (Some ''null'')" and body = "''null''" and kvs = "[]" and v = JNull] nul
  have m4: "snd (handleMessage (incoming (Some ''null'')) []) = [LogFailure TypeError]"
    by (simp add: incoming_def)
  from inst [where p = "incoming (Some ''{}'')" and body = "''{}''" and kvs = "[]" and v = JNull] obj
  have m5: "snd (handleMessage (incoming (Some ''{}'')) []) =
      [LogEvent ''product-events'' 0 JUndefined JUndefined, LogPayload None]"
    by (simp add: incoming_def u)
  from inst [where p = "incoming (Some ''{\"type\":{\"toString\":1}}'')"
      and body = "''{\"type\":{\"toString\":1}}''"
      and kvs = "[(''type'', JObj [(''toString'', JNum (Number 1 0))])]" and v = JNull] str
  have m6: "snd (handleMessage (incoming (Some ''{\"type\":{\"toString\":1}}'')) []) =
      [LogFailure TypeError]"
    by (simp add: incoming_def)
  from inst [where p = "incoming (Some ''[7]'')" and body = "''[7]''" and kvs = "[]"
      and v = "JArr [JNum (Number 7 0)]"] arr
  have m7: "snd (handleMessage (incoming (Some ''[7]'')) []) =
      [LogEvent ''product-events'' 0 JUndefined JUndefined, LogPayload None]"
    by (simp add: incoming_def)
  from inst [where p = ?good and body = "[]" and kvs = "[]" and v = JNull]
  have m8: "snd (handleMessage ?good []) =
      [LogEvent ''product-events'' 0 (JStr ''product.created'') (JStr ''1970-01-01T00:00:01.000Z''),
       LogPayload (JSON_stringify2
         (JObj [(''id'', JStr ''id''), (''name'', JStr ''Laptop''),
                (''description'', JStr ''Gaming laptop''),
                (''price'', JNum (Number 99999 (- 2))),
                (''createdAt'', JStr ''1970-01-01T00:00:00.000Z''),
                (''updatedAt'', JStr ''1970-01-01T00:00:00.000Z'')]))]"
    by (simp add: incoming_def date toISOString_epoch n)
  from bad nul obj str arr all m1 m2 m3 m4 m5 m6 m7 m8 show ?thesis by simp
qed

section \<open>Reading one product\<close>

text \<open>
  C7: \<open>findOne\<close> (the spec's \<open>get\<close>) fails, and then with \<open>NotFound\<close>, exactly when the id is
  absent from the store; it leaves the world as it found it; and after a \<open>create\<close> that
  returned a product, \<open>findOne\<close> of its id succeeds after every sequence of requests that
  does not remove that id.
\<close>

theorem findOne_fails_iff_absent:
  "((\<exists>e. fst (findOne i w) = Inl e) \<longleftrightarrow> i \<notin> fst ` set (products w)) \<and>
   (fst (findOne i w) = Inl e \<longrightarrow> e = NotFoundException (''Product '' @ i @ '' not found'')) \<and>
   snd (findOne i w) = w \<and>
   (fst (create dto w) = Inr p \<and> Remove (id' p) \<notin> set rs \<longrightarrow>
      (\<exists>q. fst (findOne (id' p) (run rs (snd (create dto w)))) = Inr q))"
proof -
  have a: "(\<exists>e. fst (findOne i w) = Inl e) \<longleftrightarrow> i \<notin> fst ` set (products w)"
    by (cases "Map_get (products w) i") (auto simp add: findOne_def Map_get_None_iff [symmetric])
  have b: "fst (findOne i w) = Inl e \<longrightarrow> e = NotFoundException (''Product '' @ i @ '' not found'')"
    by (cases "Map_get (products w) i") (auto simp add: findOne_def)
  have c: "snd (findOne i w) = w"
    by (cases "Map_get (products w) i") (auto simp add: findOne_def)
  have d: "\<exists>q. fst (findOne (id' p) (run rs (snd (create dto w)))) = Inr q"
    if made: "fst (create dto w) = Inr p" and kept: "Remove (id' p) \<notin> set rs"
  proof -
    from made have "id' p = uuids w (uuid_calls w)"
      by (auto simp add: create_eq Let_def split: if_splits)
    then have "id' p \<in> fst ` set (products (snd (create dto w)))"
      by (simp add: products_create keys_Map_set)
    from present_run [OF this kept]
    have "Map_get (products (run rs (snd (create dto w)))) (id' p) \<noteq> None"
      by (simp add: Map_get_None_iff)
    then show ?thesis by (auto simp add: findOne_def)
  qed
  from a b c d show ?thesis by blast
qed

theorem findOne_fails_iff_absent_witness:
  "fst (findOne ''missing'' (demo (\<lambda>n. True))) = Inl (NotFoundException ''Product missing not found'') \<and>
   ''missing'' \<notin> fst ` set (products (demo (\<lambda>n. True))) \<and>
   fst (create laptop (demo (\<lambda>n. True))) =
     Inr \<lparr>id' = ''id'', name = ''Laptop'', description = ''Gaming laptop'',
          price = Number 99999 (- 2), createdAt = 0, updatedAt = 0\<rparr> \<and>
   Remove ''id'' \<notin> set [Update ''id'' cheaper, Create laptop, Remove ''missing''] \<and>
   (\<exists>q. fst (findOne ''id''
            (run [Update ''id'' cheaper, Create laptop, Remove ''missing'']
               (snd (create laptop (demo (\<lambda>n. True)))))) = Inr q)"
proof -
  let ?p = "\<lparr>id' = ''id'', name = ''Laptop'', description = ''Gaming laptop'',
           price = Number 99999 (- 2), createdAt = 0, updatedAt = 0\<rparr>"
  let ?rs = "[Update ''id'' cheaper, Create laptop, Remove ''missing'']"
  have absent: "''missing'' \<notin> fst ` set (products (demo (\<lambda>n. True)))"
    by (simp add: demo_def boot_def)
  have fails: "fst (findOne ''missing'' (demo (\<lambda>n. True))) =
      Inl (NotFoundException ''Product missing not found'')"
    by (simp add: findOne_def demo_def boot_def Map_get_def)
  have made: "fst (create laptop (demo (\<lambda>n. True))) = Inr ?p"
    by (simp add: create_eq demo_def boot_def laptop_def Let_def)
  have kept: "Remove (id' ?p) \<notin> set ?rs" by simp
  from findOne_fails_iff_absent
    [of "''missing''" "demo (\<lambda>n. True)" "NotFoundException ''Product missing not found''"
        laptop ?p ?rs]
    made kept
  have "\<exists>q. fst (findOne ''id'' (run ?rs (snd (create laptop (demo (\<lambda>n. True)))))) = Inr q"
    by simp
  with fails absent made show ?thesis by simp
qed

section \<open>What emit sends\<close>

text \<open>
  C8: every \<open>emit\<close> of an event type and a payload hands exactly one record with exactly
  one message to the producer, on the configured topic; the key of the message is the
  event type and its value is the JSON text of the object with the properties \<open>type\<close>,
  \<open>payload\<close> and \<open>timestamp\<close>, in this order, the timestamp being the ISO-8601 string of
  the clock reading taken by this call. The call resolves exactly when the broker
  accepts the record.
\<close>

theorem emit_sends_one_keyed_message:
  "sent (snd (emit t p w)) =
     sent w @
     [\<lparr>topic = TOPIC w,
       messages = [\<lparr>msg_key = t,
                    msg_value = JSON_stringify
                      (JObj [(''type'', JStr t), (''payload'', p),
                             (''timestamp'', JStr (toISOString (clock w (ticks w))))])\<rparr>]\<rparr>] \<and>
   JSON_stringify
     (JObj [(''type'', JStr t), (''payload'', p),
            (''timestamp'', JStr (toISOString (clock w (ticks w))))]) =
     Some (''{'' @ quote ''type'' @ '':'' @ quote t @
           (case ser [] [] p of None \<Rightarrow> [] | Some s \<Rightarrow> '','' @ quote ''payload'' @ '':'' @ s) @
           '','' @ quote ''timestamp'' @ '':'' @ quote (toISOString (clock w (ticks w))) @ ''}'') \<and>
   fst (emit t p w) = (if broker w (length (sent w)) then Inr () else Inl DeliveryFailed)"
  by (cases "ser [] [] p") (simp_all add: emit_snd emit_fst envelope_def JSON_stringify_def)

section \<open>Dates and identifiers of stored products\<close>

text \<open>
  C9: in every store reached from the empty one by create, update and remove under a
  non-decreasing clock, every product is stored under its own id and has
  \<open>createdAt \<le> updatedAt\<close>; a product returned by \<open>create\<close> has \<open>createdAt = updatedAt\<close>; a
  product returned by \<open>update\<close> has the id and the \<open>createdAt\<close> of the stored one and the
  current clock reading as \<open>updatedAt\<close>.
\<close>

theorem stored_entities_well_stamped:
  "(mono (clock w) \<and> products w = [] \<longrightarrow>
      (\<forall>(k, p) \<in> set (products (run rs w)). id' p = k \<and> createdAt p \<le> updatedAt p)) \<and>
   (fst (create dto v) = Inr c \<longrightarrow> createdAt c = updatedAt c) \<and>
   (Map_get (products v) i = Some existing \<and> fst (update i udto v) = Inr q \<longrightarrow>
      id' q = id' existing \<and> createdAt q = createdAt existing \<and> updatedAt q = clock v (ticks v))"
proof -
  have a: "\<forall>(k, p) \<in> set (products (run rs w)). id' p = k \<and> createdAt p \<le> updatedAt p"
    if "mono (clock w)" "products w = []"
  proof -
    from that have "stamped (run rs w)" by (intro stamped_run) (simp_all add: stamped_def)
    then show ?thesis by (auto simp add: stamped_def)
  qed
  have b: "createdAt c = updatedAt c" if "fst (create dto v) = Inr c"
    using that by (auto simp add: create_eq Let_def split: if_splits)
  have c: "id' q = id' existing \<and> createdAt q = createdAt existing \<and> updatedAt q = clock v (ticks v)"
    if "Map_get (products v) i = Some existing" "fst (update i udto v) = Inr q"
    using that by (auto simp add: update_eq Let_def split: if_splits)
  from a b c show ?thesis by blast
qed


theorem stored_entities_well_stamped_witness:
  "mono (clock (demo (\<lambda>n. True))) \<and> products (demo (\<lambda>n. True)) = [] \<and>
   products (run [Create laptop, Update ''id'' cheaper] (demo (\<lambda>n. True))) =
     [(''id'', \<lparr>id' = ''id'', name = ''Laptop'', description = ''Gaming laptop'',
                price = Number 89999 (- 2), createdAt = 0, updatedAt = 2000\<rparr>)] \<and>
   (0 :: int) \<le> 2000 \<and>
   fst (create laptop (demo (\<lambda>n. True))) =
     Inr \<lparr>id' = ''id'', name = ''Laptop'', description = ''Gaming laptop'',
          price = Number 99999 (- 2), createdAt = 0, updatedAt = 0\<rparr> \<and>
   Map_get (products (stocked (\<lambda>n. True))) ''id'' =
     Some \<lparr>id' = ''id'', name = ''Laptop'', description = ''Gaming laptop'',
           price = Number 99999 (- 2), createdAt = 0, updatedAt = 0\<rparr> \<and>
   fst (update ''id'' cheaper (stocked (\<lambda>n. True))) =
     Inr \<lparr>id' = ''id'', name = ''Laptop'', description = ''Gaming laptop'',
          price = Number 89999 (- 2), createdAt = 0, updatedAt = 2000\<rparr>"
proof -
  let ?w = "demo (\<lambda>n. True)"
  let ?s = "stocked (\<lambda>n. True)"
  let ?rs = "[Create laptop, Update ''id'' cheaper]"
  let ?p = "\<lparr>id' = ''id'', name = ''Laptop'', description = ''Gaming laptop'',
           price = Number 99999 (- 2), createdAt = 0, updatedAt = 0\<rparr>"
  let ?q = "\<lparr>id' = ''id'', name = ''Laptop'', description = ''Gaming laptop'',
           price = Number 89999 (- 2), createdAt = 0, updatedAt = 2000\<rparr>"
  have clk: "mono (clock ?w)" by (simp add: demo_def boot_def mono_def)
  have empty: "products ?w = []" by (simp add: demo_def boot_def)
  have there: "Map_get (products ?s) ''id'' = Some ?p" by (simp add: stocked_eq Map_get_def)
  have run_eq: "products (run ?rs ?w) = [(''id'', ?q)]"
    using there
    by (simp add: run_def stocked_def [symmetric] products_update)
       (simp add: stocked_eq Map_set_def cheaper_def)
  have made: "fst (create laptop ?w) = Inr ?p"
    by (simp add: create_eq demo_def boot_def laptop_def Let_def)
  have upd: "fst (update ''id'' cheaper ?s) = Inr ?q"
    unfolding update_eq [OF there] by (simp add: Let_def cheaper_def) (simp add: stocked_eq)
  note all = stored_entities_well_stamped
    [where w = ?w and rs = ?rs and dto = laptop and v = ?w and c = ?p]
  note upd_part = stored_entities_well_stamped
    [where v = ?s and i = "''id''" and existing = ?p and udto = cheaper and q = ?q]
  from all clk empty run_eq have "id' ?q = ''id'' \<and> createdAt ?q \<le> updatedAt ?q"
    by simp
  moreover from all made have "createdAt ?p = updatedAt ?p" by simp
  moreover from upd_part there upd
  have "id' ?q = id' ?p \<and> createdAt ?q = createdAt ?p \<and> updatedAt ?q = clock ?s (ticks ?s)"
    by simp
  ultimately show ?thesis using clk empty run_eq made there upd by simp
qed

section \<open>Unknown identifiers\<close>

text \<open>
  C10: for an id absent from the store, \<open>update\<close> and \<open>remove\<close> reject with \<open>NotFound\<close> and
  leave the whole world as it was: the mapping is unchanged, no publish is attempted, not
  even the clock is read.
\<close>

theorem absent_id_changes_nothing:
  "i \<notin> fst ` set (products w) \<Longrightarrow>
   update i dto w = (Inl (NotFoundException (''Product '' @ i @ '' not found'')), w) \<and>
   remove i w = (Inl (NotFoundException (''Product '' @ i @ '' not found'')), w)"
  by (simp add: update_absent remove_absent Map_get_None_iff)


theorem absent_id_changes_nothing_witness:
  "''missing'' \<notin> fst ` set (products (stocked (\<lambda>n. True))) \<and>
   update ''missing'' cheaper (stocked (\<lambda>n. True)) =
     (Inl (NotFoundException ''Product missing not found''), stocked (\<lambda>n. True)) \<and>
   remove ''missing'' (stocked (\<lambda>n. True)) =
     (Inl (NotFoundException ''Product missing not found''), stocked (\<lambda>n. True))"
proof -
  have absent: "''missing'' \<notin> fst ` set (products (stocked (\<lambda>n. True)))"
    by (simp add: stocked_eq)
  from absent_id_changes_nothing [OF absent, of cheaper] absent show ?thesis by simp
qed

end
